theory Spec2Isabelle
  imports
    Main
    "HOL-Library.Sublist"
    "HOL-Library.Multiset"
    "HOL-Library.Option_ord"
    "HOL-Library.Product_Lexorder"
begin

chapter \<open>LinkedIn profile enrichment: selection, matching, record building, retry state\<close>

text \<open>
  The development embeds \<^verbatim>\<open>src/lib/utils/linkedin_profile_utils.py\<close> and
  \<^verbatim>\<open>src/enrich_linkedin_profiles.py\<close>. Python values that the code only passes
  along are kept in one datatype; a Python tuple is a list of such values; a Python dict
  is an association list with string keys; the modules \<^verbatim>\<open>lib.db.postgres\<close> and
  \<^verbatim>\<open>lib.apify\<close>, the clock and \<^verbatim>\<open>json.dumps\<close> are collaborators whose
  behaviour is a parameter of the run. So is \<^verbatim>\<open>str.lower\<close>, whose table of cased
  letters is Python's own.
\<close>

section \<open>Python values\<close>

text \<open>
  \<^verbatim>\<open>None\<close>, booleans, integers, strings, lists and dicts, as a decoded JSON document
  holds them. A string is the list of its UTF-8 bytes: the substrings the code looks for
  are ASCII, and UTF-8 keeps ASCII bytes apart from the bytes of every other character.
  Numbers are integers.
\<close>

datatype pyval =
    PNone
  | PBool bool
  | PInt int
  | PStr string
  | PList "pyval list"
  | PDict "(string \<times> pyval) list"

type_synonym profile = "(string \<times> pyval) list"

text \<open>Truth value of a Python object in a condition (\<^verbatim>\<open>if x:\<close>).\<close>

fun truthy :: "pyval \<Rightarrow> bool" where
  "truthy PNone = False"
| "truthy (PBool b) = b"
| "truthy (PInt n) = (n \<noteq> 0)"
| "truthy (PStr s) = (s \<noteq> [])"
| "truthy (PList xs) = (xs \<noteq> [])"
| "truthy (PDict kvs) = (kvs \<noteq> [])"

text \<open>\<^verbatim>\<open>d.get(key, default)\<close>; \<^verbatim>\<open>d.get(key)\<close> is the call with default \<^verbatim>\<open>None\<close>.\<close>

definition dict_get :: "profile \<Rightarrow> string \<Rightarrow> pyval \<Rightarrow> pyval" where
  "dict_get d k dflt = (case map_of d k of None \<Rightarrow> dflt | Some v \<Rightarrow> v)"

datatype error = AttributeError | CollaboratorError string

section \<open>String methods used by the normalizer\<close>

text \<open>
  \<^verbatim>\<open>s.replace(old, '')\<close>: scanning from the left, each occurrence of \<open>old\<close> found is
  skipped and the scan goes on behind it. With an empty \<open>old\<close> the string is returned as
  it is.
\<close>

function remove_substring :: "string \<Rightarrow> string \<Rightarrow> string" where
  "remove_substring old [] = []"
| "remove_substring old (c # cs) =
     (if old \<noteq> [] \<and> prefix old (c # cs)
      then remove_substring old (drop (length old) (c # cs))
      else c # remove_substring old cs)"
  by pat_completeness auto
termination
  by (relation "measure (\<lambda>(old, s). length s)") auto

text \<open>\<^verbatim>\<open>s.strip('/')\<close>: leading and trailing slashes are dropped.\<close>

definition strip_slashes :: "string \<Rightarrow> string" where
  "strip_slashes s =
     rev (dropWhile (\<lambda>c. c = CHR ''/'') (rev (dropWhile (\<lambda>c. c = CHR ''/'') s)))"

section \<open>Handle normalizer\<close>

text \<open>
  The first argument is \<^verbatim>\<open>str.lower\<close>, Python's lower-casing of a whole string; the
  normalizer applies it last.
\<close>

definition normalize_linkedin_handle :: "(string \<Rightarrow> string) \<Rightarrow> string \<Rightarrow> string" where
  "normalize_linkedin_handle str_lower linkedin_url_or_handle =
     (let handle = remove_substring ''https://www.linkedin.com'' linkedin_url_or_handle;
          handle = remove_substring ''https://linkedin.com'' handle;
          handle = remove_substring ''http://www.linkedin.com'' handle;
          handle = strip_slashes handle;
          handle = (if \<not> prefix ''in/'' handle then ''in/'' @ handle else handle)
      in str_lower (CHR ''/'' # handle))"

text \<open>The three host substrings the normalizer deletes, in the order of the calls.\<close>

definition host_substrings :: "string list" where
  "host_substrings =
     [''https://www.linkedin.com'', ''https://linkedin.com'', ''http://www.linkedin.com'']"

section \<open>Pending records and the profile lookup\<close>

text \<open>
  A pending record is the five-column tuple the selection query yields; \<open>linkedin_handle\<close>
  is index 3, \<open>retry_count\<close> index 4. The first three columns are only passed along.
\<close>

record pending_record =
  github_user_id :: pyval
  social_link_url :: pyval
  link_provider :: pyval
  linkedin_handle :: string
  retry_count :: int

type_synonym profile_lookup = "string \<rightharpoonup> profile"

text \<open>
  The normalizer called on an arbitrary Python value: a value that is no string has no
  \<^verbatim>\<open>replace\<close> attribute, and the call raises.
\<close>

definition normalize_value :: "(string \<Rightarrow> string) \<Rightarrow> pyval \<Rightarrow> error + string" where
  "normalize_value str_lower v =
     (case v of
        PStr s \<Rightarrow> Inr (normalize_linkedin_handle str_lower s)
      | _ \<Rightarrow> Inl AttributeError)"

text \<open>
  The loop of \<^verbatim>\<open>create_lookup_from_apify_profiles\<close>, with the dict built so far.
\<close>

fun lookup_loop ::
    "(string \<Rightarrow> string) \<Rightarrow> profile list \<Rightarrow> profile_lookup \<Rightarrow> error + profile_lookup" where
  "lookup_loop str_lower [] handle_to_profile = Inr handle_to_profile"
| "lookup_loop str_lower (profile # rest) handle_to_profile =
     (let public_id = dict_get profile ''publicIdentifier'' (PStr [])
      in if truthy public_id
         then (case normalize_value str_lower public_id of
                 Inl e \<Rightarrow> Inl e
               | Inr normalized_handle \<Rightarrow>
                   lookup_loop str_lower rest
                     (handle_to_profile(normalized_handle \<mapsto> profile)))
         else lookup_loop str_lower rest handle_to_profile)"

definition create_lookup_from_apify_profiles ::
    "(string \<Rightarrow> string) \<Rightarrow> profile list \<Rightarrow> error + profile_lookup" where
  "create_lookup_from_apify_profiles str_lower apify_profiles =
     lookup_loop str_lower apify_profiles Map.empty"

definition match_record_to_apify_profile ::
    "(string \<Rightarrow> string) \<Rightarrow> pending_record \<Rightarrow> profile_lookup \<Rightarrow> profile option" where
  "match_record_to_apify_profile str_lower record apify_profile_lookup =
     apify_profile_lookup (normalize_linkedin_handle str_lower (linkedin_handle record))"

text \<open>
  \<^verbatim>\<open>if apify_profile:\<close> is false for \<^verbatim>\<open>None\<close> and for an empty dict.
\<close>

fun partition_loop ::
    "(string \<Rightarrow> string) \<Rightarrow> pending_record list \<Rightarrow> profile_lookup \<Rightarrow>
     (profile \<times> pending_record) list \<Rightarrow> pending_record list \<Rightarrow>
     (profile \<times> pending_record) list \<times> pending_record list" where
  "partition_loop str_lower [] lk with_profiles without_profiles =
     (with_profiles, without_profiles)"
| "partition_loop str_lower (record # rest) lk with_profiles without_profiles =
     (case match_record_to_apify_profile str_lower record lk of
        None \<Rightarrow> partition_loop str_lower rest lk with_profiles (without_profiles @ [record])
      | Some apify_profile \<Rightarrow>
          if apify_profile \<noteq> []
          then partition_loop str_lower rest lk (with_profiles @ [(apify_profile, record)])
                 without_profiles
          else partition_loop str_lower rest lk with_profiles (without_profiles @ [record]))"

definition partition_records_by_profile_availability ::
    "(string \<Rightarrow> string) \<Rightarrow> pending_record list \<Rightarrow> profile_lookup \<Rightarrow>
     (profile \<times> pending_record) list \<times> pending_record list" where
  "partition_records_by_profile_availability str_lower pending_records apify_profile_lookup =
     partition_loop str_lower pending_records apify_profile_lookup [] []"

section \<open>Record builders\<close>

text \<open>
  Both builders return the 34-entry tuple whose order is the column list of
  \<^verbatim>\<open>upsert_linkedin_profiles\<close>. \<^verbatim>\<open>json.dumps\<close> is the first argument of the
  success builder; the reading of the clock, in epoch milliseconds, is the first argument
  of the miss builder.
\<close>

definition build_enriched_profile_record ::
    "(profile \<Rightarrow> string) \<Rightarrow> profile \<Rightarrow> pending_record \<Rightarrow> pyval list" where
  "build_enriched_profile_record dumps apify_profile record =
     [ github_user_id record,
       social_link_url record,
       link_provider record,
       PStr (linkedin_handle record),
       PStr ''apify'',
       PBool True,
       PNone,
       dict_get apify_profile ''fullName'' PNone,
       dict_get apify_profile ''firstName'' PNone,
       dict_get apify_profile ''lastName'' PNone,
       dict_get apify_profile ''headline'' PNone,
       dict_get apify_profile ''about'' PNone,
       dict_get apify_profile ''publicIdentifier'' PNone,
       dict_get apify_profile ''linkedinUrl'' PNone,
       dict_get apify_profile ''connections'' PNone,
       dict_get apify_profile ''followers'' PNone,
       dict_get apify_profile ''jobTitle'' PNone,
       dict_get apify_profile ''companyName'' PNone,
       dict_get apify_profile ''companyIndustry'' PNone,
       dict_get apify_profile ''companyWebsite'' PNone,
       dict_get apify_profile ''companyLinkedin'' PNone,
       dict_get apify_profile ''companyFoundedIn'' PNone,
       dict_get apify_profile ''companySize'' PNone,
       dict_get apify_profile ''currentJobDurationInYrs'' PNone,
       dict_get apify_profile ''addressWithCountry'' PNone,
       dict_get apify_profile ''addressCountryOnly'' PNone,
       dict_get apify_profile ''addressWithoutCountry'' PNone,
       dict_get apify_profile ''profilePic'' PNone,
       dict_get apify_profile ''profilePicHighQuality'' PNone,
       dict_get apify_profile ''topSkillsByEndorsements'' PNone,
       PStr (dumps apify_profile),
       PInt 0,
       PNone,
       PNone ]"

text \<open>The backoff in minutes, from the incremented retry count.\<close>

definition backoff_minutes :: "int \<Rightarrow> int" where
  "backoff_minutes new_retry_count = (new_retry_count ^ 2) * 5"

definition build_missing_profile_record ::
    "int \<Rightarrow> pending_record \<Rightarrow> int \<Rightarrow> pyval list" where
  "build_missing_profile_record current_timestamp record current_retry_count =
     (let new_retry_count = current_retry_count + 1;
          next_retry_timestamp =
            current_timestamp + (backoff_minutes new_retry_count * 60 * 1000)
      in [ github_user_id record,
           social_link_url record,
           link_provider record,
           PStr (linkedin_handle record),
           PStr ''apify'',
           PBool False,
           PStr ''Profile not returned by Apify API'' ]
         @ replicate 23 PNone
         @ [ PNone,
             PInt new_retry_count,
             PInt current_timestamp,
             PInt next_retry_timestamp ])"

text \<open>The column list of \<^verbatim>\<open>upsert_linkedin_profiles\<close>.\<close>

definition columns :: "string list" where
  "columns =
     [ ''github_user_id'', ''social_link_url'', ''link_provider'', ''linkedin_handle'',
       ''record_source'', ''profile_found'', ''profile_fetch_message'',
       ''full_name'', ''first_name'', ''last_name'', ''headline'', ''about'',
       ''public_identifier'', ''linkedin_url'', ''connections'', ''followers'',
       ''job_title'', ''company_name'', ''company_industry'', ''company_website'',
       ''company_linkedin'', ''company_founded_in'', ''company_size'',
       ''current_job_duration_yrs'', ''address_with_country'', ''address_country_only'',
       ''address_without_country'', ''profile_pic_url'', ''profile_pic_high_quality_url'',
       ''top_skills_by_endorsements'', ''profile_data'', ''retry_count'', ''last_retry_at'',
       ''next_retry_after'' ]"

text \<open>The value a built tuple holds for a named column, by position in the column list.\<close>

definition column :: "string \<Rightarrow> pyval list \<Rightarrow> pyval option" where
  "column name row = map_of (zip columns row) name"

section \<open>Selection query\<close>

text \<open>
  The columns of \<^verbatim>\<open>linkedin.user_details\<close> that the query reads; each nullable
  column is an option, \<open>None\<close> for SQL \<^verbatim>\<open>NULL\<close>.
\<close>

record lud_row =
  lud_github_user_id :: pyval
  lud_social_link_url :: pyval
  lud_link_provider :: pyval
  lud_linkedin_handle :: "string option"
  lud_profile_found :: "bool option"
  lud_retry_count :: "int option"
  lud_last_retry_at :: "int option"
  lud_next_retry_after :: "int option"

text \<open>
  SQL conditions have three truth values; \<open>None\<close> is unknown. A row passes
  \<^verbatim>\<open>WHERE\<close> when the condition is true.
\<close>

definition sql_and :: "bool option \<Rightarrow> bool option \<Rightarrow> bool option" where
  "sql_and a b =
     (if a = Some False \<or> b = Some False then Some False
      else if a = None \<or> b = None then None
      else Some True)"

definition sql_or :: "bool option \<Rightarrow> bool option \<Rightarrow> bool option" where
  "sql_or a b =
     (if a = Some True \<or> b = Some True then Some True
      else if a = None \<or> b = None then None
      else Some False)"

definition sql_less :: "int option \<Rightarrow> int option \<Rightarrow> bool option" where
  "sql_less a b =
     (case a of None \<Rightarrow> None
      | Some x \<Rightarrow> (case b of None \<Rightarrow> None | Some y \<Rightarrow> Some (x < y)))"

definition sql_is_null :: "'a option \<Rightarrow> bool option" where
  "sql_is_null a = Some (a = None)"

definition sql_is_not_null :: "'a option \<Rightarrow> bool option" where
  "sql_is_not_null a = Some (a \<noteq> None)"

definition sql_is_false :: "bool option \<Rightarrow> bool option" where
  "sql_is_false a = Some (a = Some False)"

definition coalesce :: "int option \<Rightarrow> int \<Rightarrow> int" where
  "coalesce a d = (case a of None \<Rightarrow> d | Some x \<Rightarrow> x)"

text \<open>The \<^verbatim>\<open>WHERE\<close> clause, with the bound parameter \<open>current_timestamp\<close>.\<close>

definition where_clause :: "int \<Rightarrow> lud_row \<Rightarrow> bool option" where
  "where_clause current_timestamp lud =
     sql_and (sql_is_not_null (lud_linkedin_handle lud))
       (sql_or (sql_is_null (lud_retry_count lud))
          (sql_and (sql_is_false (lud_profile_found lud))
             (sql_and (sql_less (lud_retry_count lud) (Some 3))
                (sql_or (sql_is_null (lud_next_retry_after lud))
                   (sql_less (lud_next_retry_after lud) (Some current_timestamp))))))"

text \<open>
  \<^verbatim>\<open>ORDER BY COALESCE(retry_count, 0) ASC, last_retry_at ASC NULLS FIRST\<close>: the
  sort key is the pair, compared lexicographically, with \<open>None\<close> below every timestamp.
  Rows with equal keys keep their order in the table.
\<close>

definition order_by_key :: "lud_row \<Rightarrow> int \<times> int option" where
  "order_by_key lud = (coalesce (lud_retry_count lud) 0, lud_last_retry_at lud)"

text \<open>
  The rows the query keeps: filtered, ordered, and cut at \<^verbatim>\<open>LIMIT\<close>. The limit
  is a count of rows; the database rejects a negative one, which is outside this model.
\<close>

definition selected_rows :: "int \<Rightarrow> nat \<Rightarrow> lud_row list \<Rightarrow> lud_row list" where
  "selected_rows current_timestamp limit tbl =
     take limit (sort_key order_by_key (filter (\<lambda>lud. where_clause current_timestamp lud = Some True) tbl))"

text \<open>The \<^verbatim>\<open>SELECT\<close> list. The handle of a row that passed the filter is not null.\<close>

definition select_list :: "lud_row \<Rightarrow> pending_record" where
  "select_list lud =
     \<lparr> github_user_id = lud_github_user_id lud,
       social_link_url = lud_social_link_url lud,
       link_provider = lud_link_provider lud,
       linkedin_handle = (case lud_linkedin_handle lud of Some h \<Rightarrow> h | None \<Rightarrow> []),
       retry_count = coalesce (lud_retry_count lud) 0 \<rparr>"

section \<open>Collaborators and the store\<close>

text \<open>
  What the run cannot decide by itself: whether \<^verbatim>\<open>open_connection\<close> succeeds
  before the read and before the write, the readings of
  \<^verbatim>\<open>int(time.time() * 1000)\<close> in the order they are taken, what
  \<^verbatim>\<open>get_linkedin_profiles\<close> returns or raises, \<^verbatim>\<open>json.dumps\<close>, and
  whether \<^verbatim>\<open>upsert_multiple_records\<close> raises; and \<^verbatim>\<open>str.lower\<close>.
\<close>

record collaborators =
  read_connection_opens :: bool
  clock_reading :: "nat \<Rightarrow> int"
  get_linkedin_profiles :: "string list \<Rightarrow> error + profile list"
  json_dumps :: "profile \<Rightarrow> string"
  lower_builtin :: "string \<Rightarrow> string"
  write_connection_opens :: bool
  upsert_multiple_records_raises :: bool

text \<open>
  The store: the table the query reads, and the batches handed to
  \<^verbatim>\<open>upsert_multiple_records\<close> that it accepted, oldest first.
\<close>

record store =
  user_details :: "lud_row list"
  upserted :: "pyval list list list"

definition fetch_records_pending_for_enrichment ::
    "collaborators \<Rightarrow> nat \<Rightarrow> store \<Rightarrow> pending_record list option" where
  "fetch_records_pending_for_enrichment c limit db =
     (let current_timestamp = clock_reading c 0
      in if read_connection_opens c
         then Some (map select_list (selected_rows current_timestamp limit (user_details db)))
         else None)"

definition upsert_linkedin_profiles ::
    "collaborators \<Rightarrow> pyval list list \<Rightarrow> store \<Rightarrow> bool \<times> store" where
  "upsert_linkedin_profiles c profile_records db =
     (if profile_records = [] then (True, db)
      else if write_connection_opens c
      then (if upsert_multiple_records_raises c then (False, db)
            else (True, db\<lparr>upserted := upserted db @ [profile_records]\<rparr>))
      else (False, db))"

section \<open>Orchestrator\<close>

datatype run_outcome =
    NothingToDo
  | Raised error
  | Finished (enriched_records: "pyval list list") (missing_records: "pyval list list")
      (success: bool)

text \<open>
  Step 4 of the run. The miss builder is called with the record alone, so its second
  parameter takes its default 0; the \<open>i\<close>-th call reads the clock for the \<open>i + 1\<close>-st
  time in the run.
\<close>

definition build_enriched_records ::
    "collaborators \<Rightarrow> (profile \<times> pending_record) list \<Rightarrow> pyval list list" where
  "build_enriched_records c records_with_profiles =
     map (\<lambda>(profile, record). build_enriched_profile_record (json_dumps c) profile record)
       records_with_profiles"

definition build_missing_records ::
    "collaborators \<Rightarrow> pending_record list \<Rightarrow> pyval list list" where
  "build_missing_records c records_without_profiles =
     map (\<lambda>(i, record). build_missing_profile_record (clock_reading c (Suc i)) record 0)
       (enumerate 0 records_without_profiles)"

text \<open>Steps 3 to 5 of the run, once the provider has answered.\<close>

definition match_build_upsert ::
    "collaborators \<Rightarrow> pending_record list \<Rightarrow> profile_lookup \<Rightarrow> store \<Rightarrow> run_outcome \<times> store" where
  "match_build_upsert c pending_records profile_lookup db =
     (let partitioned =
            partition_records_by_profile_availability (lower_builtin c) pending_records
              profile_lookup;
          enriched = build_enriched_records c (fst partitioned);
          missing = build_missing_records c (snd partitioned);
          all_records = enriched @ missing;
          written = upsert_linkedin_profiles c all_records db
      in (Finished enriched missing (fst written), snd written))"

definition enrich_linkedin_profiles ::
    "collaborators \<Rightarrow> nat \<Rightarrow> store \<Rightarrow> run_outcome \<times> store" where
  "enrich_linkedin_profiles c batch_size db =
     (case fetch_records_pending_for_enrichment c batch_size db of
        None \<Rightarrow> (NothingToDo, db)
      | Some pending_records \<Rightarrow>
          (if pending_records = [] then (NothingToDo, db)
           else
             (case get_linkedin_profiles c
                     (map (\<lambda>record. ''https://www.linkedin.com/'' @ linkedin_handle record)
                        pending_records) of
                Inl e \<Rightarrow> (Raised e, db)
              | Inr apify_profiles \<Rightarrow>
                  (case create_lookup_from_apify_profiles (lower_builtin c) apify_profiles of
                     Inl e \<Rightarrow> (Raised e, db)
                   | Inr profile_lookup \<Rightarrow>
                       match_build_upsert c pending_records profile_lookup db))))"

section \<open>The eligibility policy in the words of the specification\<close>

text \<open>
  A row is eligible at time \<open>now\<close> when it has a handle and either was never attempted
  (its retry counter is unset) or failed (found is false) with a retry count below 3 and
  with no cooldown set or a cooldown that elapsed before \<open>now\<close>.
\<close>

definition eligible :: "int \<Rightarrow> lud_row \<Rightarrow> bool" where
  "eligible now lud \<longleftrightarrow>
     lud_linkedin_handle lud \<noteq> None \<and>
     (lud_retry_count lud = None \<or>
      (lud_profile_found lud = Some False \<and>
       (case lud_retry_count lud of None \<Rightarrow> False | Some n \<Rightarrow> n < 3) \<and>
       (case lud_next_retry_after lud of None \<Rightarrow> True | Some t \<Rightarrow> t < now)))"

section \<open>Sample inputs\<close>

text \<open>
  \<^verbatim>\<open>str.lower\<close> as it acts on ASCII text: the letters A to Z go to a to z, every
  other byte stays. The sample inputs are ASCII.
\<close>

definition ascii_lower_char :: "char \<Rightarrow> char" where
  "ascii_lower_char c =
     (let n = (of_char c :: nat) in if 65 \<le> n \<and> n \<le> 90 then char_of (n + 32) else c)"

definition ascii_lower :: "string \<Rightarrow> string" where
  "ascii_lower s = map ascii_lower_char s"

text \<open>
  A provider that answers with the given profiles, a clock that stands at 1000000 ms, a
  store that opens and accepts the batch.
\<close>

definition answering :: "profile list \<Rightarrow> collaborators" where
  "answering profiles =
     \<lparr> read_connection_opens = True,
       clock_reading = (\<lambda>k. 1000000),
       get_linkedin_profiles = (\<lambda>urls. Inr profiles),
       json_dumps = (\<lambda>p. ''{}''),
       lower_builtin = ascii_lower,
       write_connection_opens = True,
       upsert_multiple_records_raises = False \<rparr>"

text \<open>The same, with a provider that raises.\<close>

definition failing :: collaborators where
  "failing = (answering [])\<lparr> get_linkedin_profiles := (\<lambda>urls. Inl (CollaboratorError ''timeout'')) \<rparr>"

definition jdoe :: pending_record where
  "jdoe =
     \<lparr> github_user_id = PInt 7,
       social_link_url = PStr ''https://www.linkedin.com/in/jdoe'',
       link_provider = PStr ''linkedin'',
       linkedin_handle = ''in/jdoe'',
       retry_count = 2 \<rparr>"

text \<open>The row of \<open>jdoe\<close> after two misses, its cooldown over at 1000000 ms.\<close>

definition jdoe_row :: lud_row where
  "jdoe_row =
     \<lparr> lud_github_user_id = PInt 7,
       lud_social_link_url = PStr ''https://www.linkedin.com/in/jdoe'',
       lud_link_provider = PStr ''linkedin'',
       lud_linkedin_handle = Some ''in/jdoe'',
       lud_profile_found = Some False,
       lud_retry_count = Some 2,
       lud_last_retry_at = Some 10,
       lud_next_retry_after = Some 20 \<rparr>"

definition jdoe_profile :: profile where
  "jdoe_profile = [(''publicIdentifier'', PStr ''jdoe''), (''fullName'', PStr ''J Doe'')]"

definition jdoe_store :: store where
  "jdoe_store = \<lparr> user_details = [jdoe_row], upserted = [] \<rparr>"

text \<open>The row of another user whose retry count stands at 3, its cooldown over as well.\<close>

definition exhausted_row :: lud_row where
  "exhausted_row =
     \<lparr> lud_github_user_id = PInt 9,
       lud_social_link_url = PStr ''https://www.linkedin.com/in/bkhan'',
       lud_link_provider = PStr ''linkedin'',
       lud_linkedin_handle = Some ''in/bkhan'',
       lud_profile_found = Some False,
       lud_retry_count = Some 3,
       lud_last_retry_at = Some 10,
       lud_next_retry_after = Some 55 \<rparr>"

section \<open>Names for groups of columns\<close>

text \<open>The 23 profile columns, \<open>full_name\<close> through \<open>top_skills_by_endorsements\<close>.\<close>

definition profile_columns :: "string list" where
  "profile_columns = take 23 (drop 7 columns)"

section \<open>Auxiliary names\<close>

text \<open>The three \<^verbatim>\<open>replace\<close> calls of the normalizer, in their order.\<close>

definition remove_hosts :: "string \<Rightarrow> string" where
  "remove_hosts s =
     remove_substring ''http://www.linkedin.com''
       (remove_substring ''https://linkedin.com''
          (remove_substring ''https://www.linkedin.com'' s))"

text \<open>
  What the body of the lookup loop does with one profile: \<open>public_key\<close> is the key it
  stores the profile under, \<open>None\<close> when the profile is skipped or the normalizer
  raises; \<open>raises_on\<close> holds when the normalizer raises.
\<close>

definition public_key :: "(string \<Rightarrow> string) \<Rightarrow> profile \<Rightarrow> string option" where
  "public_key str_lower p =
     (case dict_get p ''publicIdentifier'' (PStr []) of
        PStr s \<Rightarrow> if s \<noteq> [] then Some (normalize_linkedin_handle str_lower s) else None
      | _ \<Rightarrow> None)"

definition raises_on :: "profile \<Rightarrow> bool" where
  "raises_on p =
     (case dict_get p ''publicIdentifier'' (PStr []) of
        PStr s \<Rightarrow> False
      | v \<Rightarrow> truthy v)"

text \<open>
  Two more profiles: one whose identifier normalizes as that of \<open>jdoe_profile\<close>, one
  whose identifier differs.
\<close>

definition jdoe_upper :: profile where
  "jdoe_upper = [(''publicIdentifier'', PStr ''JDoe''), (''fullName'', PStr ''Jane Doe'')]"

definition asmith_profile :: profile where
  "asmith_profile = [(''publicIdentifier'', PStr ''asmith'')]"

text \<open>
  An occurrence of \<open>old\<close> straddles the join of \<open>a\<close> and \<open>b\<close> when it begins in \<open>a\<close> and
  ends in \<open>b\<close>: some proper, non-empty head of \<open>old\<close> ends \<open>a\<close> and the rest of \<open>old\<close>
  begins \<open>b\<close>.
\<close>

definition straddles :: "string \<Rightarrow> string \<Rightarrow> string \<Rightarrow> bool" where
  "straddles old a b =
     list_ex (\<lambda>k. suffix (take k old) a \<and> prefix (drop k old) b) [1..<length old]"

text \<open>
  What the proofs about the normal form use of \<^verbatim>\<open>str.lower\<close>: lower-casing twice is
  lower-casing once; a leading \<open>/in/\<close> stays; a string that is not empty and does not end
  in a slash goes to such a string; and \<open>/in/\<close> goes to itself.
\<close>

definition str_lower_facts :: "(string \<Rightarrow> string) \<Rightarrow> bool" where
  "str_lower_facts lw \<longleftrightarrow>
     (\<forall>s. lw (lw s) = lw s) \<and>
     (\<forall>s. prefix ''/in/'' (lw (''/in/'' @ s))) \<and>
     (\<forall>s. s \<noteq> [] \<and> last s \<noteq> CHR ''/'' \<longrightarrow> lw s \<noteq> [] \<and> last (lw s) \<noteq> CHR ''/'') \<and>
     lw ''/in/'' = ''/in/''"

text \<open>
  The condition of the partition: the lookup has a profile for the record, and the
  profile is true in a condition.
\<close>

definition matched :: "(string \<Rightarrow> string) \<Rightarrow> profile_lookup \<Rightarrow> pending_record \<Rightarrow> bool" where
  "matched lw lk record =
     (case match_record_to_apify_profile lw record lk of
        None \<Rightarrow> False
      | Some apify_profile \<Rightarrow> apify_profile \<noteq> [])"

text \<open>
  The identity columns of a pending record, and of a built tuple: \<open>github_user_id\<close>,
  \<open>social_link_url\<close>, \<open>link_provider\<close> and \<open>linkedin_handle\<close>, the first four entries.
\<close>

definition record_identity :: "pending_record \<Rightarrow> pyval list" where
  "record_identity record =
     [github_user_id record, social_link_url record, link_provider record,
      PStr (linkedin_handle record)]"

definition tuple_identity :: "pyval list \<Rightarrow> pyval list" where
  "tuple_identity row = take 4 row"

text \<open>
  A second row, never attempted, the pending record the query yields for it, and the
  store with both rows.
\<close>

definition asmith_row :: lud_row where
  "asmith_row =
     \<lparr> lud_github_user_id = PInt 8,
       lud_social_link_url = PStr ''https://www.linkedin.com/in/asmith'',
       lud_link_provider = PStr ''linkedin'',
       lud_linkedin_handle = Some ''in/asmith'',
       lud_profile_found = None,
       lud_retry_count = None,
       lud_last_retry_at = None,
       lud_next_retry_after = None \<rparr>"

definition asmith :: pending_record where
  "asmith =
     \<lparr> github_user_id = PInt 8,
       social_link_url = PStr ''https://www.linkedin.com/in/asmith'',
       link_provider = PStr ''linkedin'',
       linkedin_handle = ''in/asmith'',
       retry_count = 0 \<rparr>"

definition two_store :: store where
  "two_store = \<lparr> user_details = [jdoe_row, asmith_row], upserted = [] \<rparr>"

chapter \<open>Properties\<close>

section \<open>Columns of the built tuples\<close>

lemma missing_record_columns:
  "map (\<lambda>name. column name (build_missing_profile_record now r prior)) columns
     = map Some (build_missing_profile_record now r prior)"
  by (simp add: column_def columns_def build_missing_profile_record_def Let_def eval_nat_numeral)

lemma enriched_record_columns:
  "map (\<lambda>name. column name (build_enriched_profile_record dumps p r)) columns
     = map Some (build_enriched_profile_record dumps p r)"
  by (simp add: column_def columns_def build_enriched_profile_record_def)

section \<open>Retry scheduler\<close>

lemma backoff_minutes_mono:
  assumes "0 \<le> m" "m < n"
  shows "backoff_minutes (m + 1) < backoff_minutes (n + 1)"
proof -
  have "(m + 1) ^ 2 < (n + 1) ^ 2"
    using assms by (intro power_strict_mono) auto
  then show ?thesis by (simp add: backoff_minutes_def)
qed

text \<open>
  Claim C3. Given a prior retry count and the current time \<open>now_ms\<close>, the miss builder
  stores the prior count plus one as \<open>retry_count\<close>, \<open>now_ms\<close> as \<open>last_retry_at\<close>, and
  \<open>now_ms\<close> plus the backoff in minutes times 60000 as \<open>next_retry_after\<close>; the backoff
  is the square of the new count times 5, that is 5, 20 and 45 minutes for the new counts
  1, 2 and 3; and the cooldown grows strictly with the retry count, for counts from 0 on.
\<close>

theorem retry_scheduler:
  "column ''retry_count'' (build_missing_profile_record now_ms r prior) = Some (PInt (prior + 1)) \<and>
   column ''last_retry_at'' (build_missing_profile_record now_ms r prior) = Some (PInt now_ms) \<and>
   column ''next_retry_after'' (build_missing_profile_record now_ms r prior)
     = Some (PInt (now_ms + backoff_minutes (prior + 1) * 60000)) \<and>
   backoff_minutes (prior + 1) = (prior + 1) ^ 2 * 5 \<and>
   backoff_minutes 1 = 5 \<and> backoff_minutes 2 = 20 \<and> backoff_minutes 3 = 45 \<and>
   (0 \<le> prior \<and> prior < later \<longrightarrow>
      backoff_minutes (prior + 1) * 60000 < backoff_minutes (later + 1) * 60000)"
proof -
  have cols:
    "column ''retry_count'' (build_missing_profile_record now_ms r prior) = Some (PInt (prior + 1))"
    "column ''last_retry_at'' (build_missing_profile_record now_ms r prior) = Some (PInt now_ms)"
    "column ''next_retry_after'' (build_missing_profile_record now_ms r prior)
       = Some (PInt (now_ms + backoff_minutes (prior + 1) * 60000))"
    using missing_record_columns[of now_ms r prior]
    by (simp_all add: columns_def build_missing_profile_record_def Let_def eval_nat_numeral)
  have vals: "backoff_minutes 1 = 5" "backoff_minutes 2 = 20" "backoff_minutes 3 = 45"
    "backoff_minutes (prior + 1) = (prior + 1) ^ 2 * 5"
    by (simp_all add: backoff_minutes_def)
  have mono: "0 \<le> prior \<and> prior < later \<longrightarrow>
      backoff_minutes (prior + 1) * 60000 < backoff_minutes (later + 1) * 60000"
    using backoff_minutes_mono[of prior later] by simp
  from cols vals mono show ?thesis by blast
qed

theorem retry_scheduler_witness:
  "column ''retry_count'' (build_missing_profile_record 1000000 jdoe 2) = Some (PInt 3) \<and>
   column ''last_retry_at'' (build_missing_profile_record 1000000 jdoe 2) = Some (PInt 1000000) \<and>
   column ''next_retry_after'' (build_missing_profile_record 1000000 jdoe 2) = Some (PInt 3700000) \<and>
   (0::int) \<le> 2 \<and> (2::int) < 3 \<and> backoff_minutes 3 * 60000 < backoff_minutes 4 * 60000"
  using retry_scheduler[of 1000000 jdoe 2 3] by (simp add: backoff_minutes_def)

section \<open>Miss path\<close>

text \<open>
  Claim C4, as stated, at the record \<open>jdoe\<close>: the message the miss builder stores is not
  the text "Profile not returned by provider".
\<close>

theorem miss_message_is_not_the_spec_text:
  "column ''profile_fetch_message'' (build_missing_profile_record 1000000 jdoe 2)
     \<noteq> Some (PStr ''Profile not returned by provider'')"
  by code_simp

text \<open>
  Claim C4, amended. For every pending record, the miss builder produces a tuple with
  every profile column null, the raw-profile blob null, found false, and the fixed message
  "Profile not returned by Apify API".
\<close>

theorem miss_builder_nulls_profile:
  "map (\<lambda>name. column name (build_missing_profile_record now r prior)) profile_columns
     = replicate 23 (Some PNone) \<and>
   column ''profile_data'' (build_missing_profile_record now r prior) = Some PNone \<and>
   column ''profile_found'' (build_missing_profile_record now r prior) = Some (PBool False) \<and>
   column ''profile_fetch_message'' (build_missing_profile_record now r prior)
     = Some (PStr ''Profile not returned by Apify API'')"
  using missing_record_columns[of now r prior]
  by (simp add: columns_def profile_columns_def build_missing_profile_record_def Let_def
      eval_nat_numeral)

theorem miss_builder_nulls_profile_witness:
  "map (\<lambda>name. column name (build_missing_profile_record 1000000 jdoe 2)) profile_columns
     = replicate 23 (Some PNone) \<and>
   column ''profile_data'' (build_missing_profile_record 1000000 jdoe 2) = Some PNone \<and>
   column ''profile_found'' (build_missing_profile_record 1000000 jdoe 2) = Some (PBool False) \<and>
   column ''profile_fetch_message'' (build_missing_profile_record 1000000 jdoe 2)
     = Some (PStr ''Profile not returned by Apify API'')"
  using miss_builder_nulls_profile[of 1000000 jdoe 2] .

section \<open>Success path\<close>



section \<open>Selection\<close>

lemma where_clause_eligible: "where_clause now lud = Some True \<longleftrightarrow> eligible now lud"
  by (auto simp: where_clause_def eligible_def sql_and_def sql_or_def sql_less_def
      sql_is_null_def sql_is_not_null_def sql_is_false_def split: option.splits)

lemma selected_rows_pass:
  assumes "lud \<in> set (selected_rows now limit tbl)"
  shows "lud \<in> set tbl \<and> eligible now lud"
proof -
  have "set (selected_rows now limit tbl)
        \<subseteq> set (sort_key order_by_key (filter (\<lambda>lud. where_clause now lud = Some True) tbl))"
    unfolding selected_rows_def by (rule set_take_subset)
  with assms show ?thesis by (auto simp: where_clause_eligible)
qed

text \<open>
  Claim C2. The selection query returns only rows of the table that have a handle and are
  either never attempted or failed with a retry count below 3 and with no cooldown set or
  an elapsed one; the returned tuples are the select list of these rows; and a row with
  found false and a retry count of 3 or more is in no result, whatever the current time.
\<close>

theorem selection_returns_only_eligible:
  assumes "fetch_records_pending_for_enrichment c limit db = Some rs"
  shows "rs = map select_list (selected_rows (clock_reading c 0) limit (user_details db)) \<and>
         (\<forall>lud \<in> set (selected_rows (clock_reading c 0) limit (user_details db)).
             lud \<in> set (user_details db) \<and> eligible (clock_reading c 0) lud \<and>
             lud_linkedin_handle lud = Some (linkedin_handle (select_list lud))) \<and>
         (\<forall>lud now. lud_profile_found lud = Some False \<and>
              (case lud_retry_count lud of None \<Rightarrow> False | Some n \<Rightarrow> 3 \<le> n)
            \<longrightarrow> lud \<notin> set (selected_rows now limit (user_details db)))"
proof (intro conjI)
  show "rs = map select_list (selected_rows (clock_reading c 0) limit (user_details db))"
    using assms by (auto simp: fetch_records_pending_for_enrichment_def Let_def split: if_splits)
  show "\<forall>lud \<in> set (selected_rows (clock_reading c 0) limit (user_details db)).
             lud \<in> set (user_details db) \<and> eligible (clock_reading c 0) lud \<and>
             lud_linkedin_handle lud = Some (linkedin_handle (select_list lud))"
  proof
    fix lud
    assume m: "lud \<in> set (selected_rows (clock_reading c 0) limit (user_details db))"
    from selected_rows_pass[OF m]
    have p: "lud \<in> set (user_details db)" "eligible (clock_reading c 0) lud" by simp_all
    from p(2) obtain h where "lud_linkedin_handle lud = Some h"
      by (auto simp: eligible_def)
    then have "lud_linkedin_handle lud = Some (linkedin_handle (select_list lud))"
      by (simp add: select_list_def)
    with p show "lud \<in> set (user_details db) \<and> eligible (clock_reading c 0) lud \<and>
             lud_linkedin_handle lud = Some (linkedin_handle (select_list lud))" by simp
  qed
  show "\<forall>lud now. lud_profile_found lud = Some False \<and>
              (case lud_retry_count lud of None \<Rightarrow> False | Some n \<Rightarrow> 3 \<le> n)
            \<longrightarrow> lud \<notin> set (selected_rows now limit (user_details db))"
  proof (intro allI impI notI)
    fix lud now
    assume h: "lud_profile_found lud = Some False \<and>
              (case lud_retry_count lud of None \<Rightarrow> False | Some n \<Rightarrow> 3 \<le> n)"
       and m: "lud \<in> set (selected_rows now limit (user_details db))"
    from selected_rows_pass[OF m] have "eligible now lud" by simp
    with h show False by (auto simp: eligible_def split: option.splits)
  qed
qed

theorem selection_returns_only_eligible_witness:
  "fetch_records_pending_for_enrichment (answering []) 5
      \<lparr> user_details = [exhausted_row, jdoe_row], upserted = [] \<rparr> = Some [jdoe] \<and>
   selected_rows 1000000 5 [exhausted_row, jdoe_row] = [jdoe_row] \<and>
   eligible 1000000 jdoe_row \<and>
   lud_profile_found exhausted_row = Some False \<and> lud_retry_count exhausted_row = Some 3 \<and>
   exhausted_row \<notin> set (selected_rows 1000000 5 [exhausted_row, jdoe_row])"
proof -
  have f: "fetch_records_pending_for_enrichment (answering []) 5
      \<lparr> user_details = [exhausted_row, jdoe_row], upserted = [] \<rparr> = Some [jdoe]"
    by code_simp
  have s: "selected_rows 1000000 5 [exhausted_row, jdoe_row] = [jdoe_row]"
    by code_simp
  have e: "lud_profile_found exhausted_row = Some False" "lud_retry_count exhausted_row = Some 3"
    by (simp_all add: exhausted_row_def)
  have k: "clock_reading (answering []) 0 = 1000000" by (simp add: answering_def)
  have d: "user_details \<lparr> user_details = [exhausted_row, jdoe_row], upserted = [] \<rparr>
             = [exhausted_row, jdoe_row]" by simp
  note t = selection_returns_only_eligible[OF f, unfolded k d]
  from t have "\<forall>lud \<in> set (selected_rows 1000000 5 [exhausted_row, jdoe_row]).
      eligible 1000000 lud" by blast
  with s have el: "eligible 1000000 jdoe_row" by simp
  from t e have "exhausted_row \<notin> set (selected_rows 1000000 5 [exhausted_row, jdoe_row])"
    by simp
  with f s e el show ?thesis by blast
qed

section \<open>Partition and run\<close>

lemma partition_loop_filter:
  "partition_loop lw rs lk w wo =
     (w @ map (\<lambda>r. (the (match_record_to_apify_profile lw r lk), r)) (filter (matched lw lk) rs),
      wo @ filter (\<lambda>r. \<not> matched lw lk r) rs)"
  by (induction rs arbitrary: w wo) (auto simp: matched_def split: option.splits)

lemma partition_filter:
  "map snd (fst (partition_records_by_profile_availability lw rs lk)) = filter (matched lw lk) rs"
  "snd (partition_records_by_profile_availability lw rs lk) = filter (\<lambda>r. \<not> matched lw lk r) rs"
  by (simp_all add: partition_records_by_profile_availability_def partition_loop_filter comp_def)

lemma partition_mset:
  "mset (map snd (fst (partition_records_by_profile_availability lw rs lk)))
     + mset (snd (partition_records_by_profile_availability lw rs lk)) = mset rs"
  by (simp add: partition_filter)

lemma partition_length:
  "length (fst (partition_records_by_profile_availability lw rs lk))
     + length (snd (partition_records_by_profile_availability lw rs lk)) = length rs"
proof -
  have "size (mset (map snd (fst (partition_records_by_profile_availability lw rs lk)))
     + mset (snd (partition_records_by_profile_availability lw rs lk))) = size (mset rs)"
    by (simp only: partition_mset)
  then show ?thesis by simp
qed

lemma enriched_tuple_identity:
  "tuple_identity (build_enriched_profile_record dumps p r) = record_identity r"
  by (simp add: tuple_identity_def record_identity_def build_enriched_profile_record_def)

lemma missing_tuple_identity:
  "tuple_identity (build_missing_profile_record now r prior) = record_identity r"
  by (simp add: tuple_identity_def record_identity_def build_missing_profile_record_def Let_def)

lemma enriched_tuple_found:
  "column ''profile_found'' (build_enriched_profile_record dumps p r) = Some (PBool True)"
  using enriched_record_columns[of dumps p r]
  by (simp add: columns_def build_enriched_profile_record_def)

lemma missing_tuple_found:
  "column ''profile_found'' (build_missing_profile_record now r prior) = Some (PBool False)"
  using missing_record_columns[of now r prior]
  by (simp add: columns_def build_missing_profile_record_def Let_def eval_nat_numeral)

lemma enriched_records_tied:
  "map tuple_identity (build_enriched_records c w) = map (\<lambda>pr. record_identity (snd pr)) w"
  "map (column ''profile_found'') (build_enriched_records c w)
     = map (\<lambda>pr. Some (PBool True)) w"
  "map (column ''profile_data'') (build_enriched_records c w)
     = map (\<lambda>pr. Some (PStr (json_dumps c (fst pr)))) w"
proof -
  have d: "column ''profile_data'' (build_enriched_profile_record dumps p r) = Some (PStr (dumps p))"
    for dumps p r
    using enriched_record_columns[of dumps p r]
    by (simp add: columns_def build_enriched_profile_record_def)
  show "map tuple_identity (build_enriched_records c w) = map (\<lambda>pr. record_identity (snd pr)) w"
    by (simp add: build_enriched_records_def enriched_tuple_identity split_def)
  show "map (column ''profile_found'') (build_enriched_records c w)
     = map (\<lambda>pr. Some (PBool True)) w"
    by (simp add: build_enriched_records_def enriched_tuple_found split_def)
  show "map (column ''profile_data'') (build_enriched_records c w)
     = map (\<lambda>pr. Some (PStr (json_dumps c (fst pr)))) w"
    by (simp add: build_enriched_records_def d split_def)
qed

lemma map_snd_of_enumerate: "map (\<lambda>ir. g (snd ir)) (enumerate n xs) = map g xs"
  by (induction xs arbitrary: n) simp_all

lemma missing_records_tied:
  "map tuple_identity (build_missing_records c wo) = map record_identity wo"
  "map (column ''profile_found'') (build_missing_records c wo)
     = map (\<lambda>r. Some (PBool False)) wo"
proof -
  have "map tuple_identity (build_missing_records c wo)
          = map (\<lambda>ir. record_identity (snd ir)) (enumerate 0 wo)"
    by (simp add: build_missing_records_def missing_tuple_identity split_def)
  then show "map tuple_identity (build_missing_records c wo) = map record_identity wo"
    by (simp only: map_snd_of_enumerate)
  have "map (column ''profile_found'') (build_missing_records c wo)
          = map (\<lambda>ir. (\<lambda>r. Some (PBool False)) (snd ir)) (enumerate 0 wo)"
    by (simp add: build_missing_records_def missing_tuple_found split_def)
  then show "map (column ''profile_found'') (build_missing_records c wo)
     = map (\<lambda>r. Some (PBool False)) wo"
    using map_snd_of_enumerate[of "\<lambda>r. Some (PBool False)" 0 wo] by simp
qed

lemma finished_run:
  assumes "enrich_linkedin_profiles c n db = (Finished enriched missing ok, db')"
  shows "\<exists>selected profiles lk.
           fetch_records_pending_for_enrichment c n db = Some selected \<and>
           get_linkedin_profiles c
             (map (\<lambda>record. ''https://www.linkedin.com/'' @ linkedin_handle record) selected)
             = Inr profiles \<and>
           create_lookup_from_apify_profiles (lower_builtin c) profiles = Inr lk \<and>
           enriched = build_enriched_records c
             (fst (partition_records_by_profile_availability (lower_builtin c) selected lk)) \<and>
           missing = build_missing_records c
             (snd (partition_records_by_profile_availability (lower_builtin c) selected lk))"
  using assms
  by (auto simp: enrich_linkedin_profiles_def match_build_upsert_def Let_def
      split: option.splits if_splits sum.splits)

text \<open>
  Claim C8. For every list of pending records and every lookup, the partition puts each
  record in exactly one of its two lists: the matched list holds, in order, the records
  the lookup has a profile for, the missing list the others. One tuple is built per
  entry of either list, and it is the tuple of that entry: it carries the identity
  columns of its record, found true and the serialized profile of its pair for a matched
  record, found false for a missing one. A run that reaches its write phase has built as
  many tuples as the query selected, and their identity columns are, up to order, those
  of the selected records.
\<close>

theorem one_outcome_per_pending_record:
  "map snd (fst (partition_records_by_profile_availability lw rs lk)) = filter (matched lw lk) rs \<and>
   snd (partition_records_by_profile_availability lw rs lk) = filter (\<lambda>r. \<not> matched lw lk r) rs \<and>
   mset (map snd (fst (partition_records_by_profile_availability lw rs lk)))
     + mset (snd (partition_records_by_profile_availability lw rs lk)) = mset rs \<and>
   map tuple_identity
       (build_enriched_records c (fst (partition_records_by_profile_availability lw rs lk)))
     = map record_identity (filter (matched lw lk) rs) \<and>
   map tuple_identity
       (build_missing_records c (snd (partition_records_by_profile_availability lw rs lk)))
     = map record_identity (filter (\<lambda>r. \<not> matched lw lk r) rs) \<and>
   map (column ''profile_found'')
       (build_enriched_records c (fst (partition_records_by_profile_availability lw rs lk)))
     = map (\<lambda>r. Some (PBool True)) (filter (matched lw lk) rs) \<and>
   map (column ''profile_found'')
       (build_missing_records c (snd (partition_records_by_profile_availability lw rs lk)))
     = map (\<lambda>r. Some (PBool False)) (filter (\<lambda>r. \<not> matched lw lk r) rs) \<and>
   map (column ''profile_data'')
       (build_enriched_records c (fst (partition_records_by_profile_availability lw rs lk)))
     = map (\<lambda>r. Some (PStr (json_dumps c (the (match_record_to_apify_profile lw r lk)))))
         (filter (matched lw lk) rs) \<and>
   length (build_enriched_records c (fst (partition_records_by_profile_availability lw rs lk)))
     + length (build_missing_records c (snd (partition_records_by_profile_availability lw rs lk)))
     = length rs \<and>
   (enrich_linkedin_profiles c n db = (Finished enriched missing ok, db') \<longrightarrow>
     (\<exists>selected. fetch_records_pending_for_enrichment c n db = Some selected \<and>
        length selected = length enriched + length missing \<and>
        mset (map tuple_identity (enriched @ missing)) = mset (map record_identity selected)))"
proof -
  let ?P = "partition_records_by_profile_availability lw rs lk"
  have f: "map snd (fst ?P) = filter (matched lw lk) rs"
    "snd ?P = filter (\<lambda>r. \<not> matched lw lk r) rs"
    by (rule partition_filter)+
  have fp: "fst ?P = map (\<lambda>r. (the (match_record_to_apify_profile lw r lk), r)) (filter (matched lw lk) rs)"
    by (simp add: partition_records_by_profile_availability_def partition_loop_filter)
  have ie: "map tuple_identity (build_enriched_records c (fst ?P))
              = map record_identity (filter (matched lw lk) rs)"
    using enriched_records_tied(1)[of c "fst ?P"] by (simp add: fp comp_def)
  have im: "map tuple_identity (build_missing_records c (snd ?P))
              = map record_identity (filter (\<lambda>r. \<not> matched lw lk r) rs)"
    using missing_records_tied(1)[of c "snd ?P"] f(2) by simp
  have fe: "map (column ''profile_found'') (build_enriched_records c (fst ?P))
              = map (\<lambda>r. Some (PBool True)) (filter (matched lw lk) rs)"
    using enriched_records_tied(2)[of c "fst ?P"] by (simp add: fp comp_def)
  have fm: "map (column ''profile_found'') (build_missing_records c (snd ?P))
              = map (\<lambda>r. Some (PBool False)) (filter (\<lambda>r. \<not> matched lw lk r) rs)"
    using missing_records_tied(2)[of c "snd ?P"] f(2) by simp
  have pd: "map (column ''profile_data'') (build_enriched_records c (fst ?P))
     = map (\<lambda>r. Some (PStr (json_dumps c (the (match_record_to_apify_profile lw r lk)))))
         (filter (matched lw lk) rs)"
    using enriched_records_tied(3)[of c "fst ?P"] by (simp add: fp comp_def)
  have len: "length (build_enriched_records c (fst ?P)) + length (build_missing_records c (snd ?P))
               = length rs"
    using partition_length[of lw rs lk]
    by (simp add: build_enriched_records_def build_missing_records_def)
  have run: "enrich_linkedin_profiles c n db = (Finished enriched missing ok, db') \<longrightarrow>
     (\<exists>selected. fetch_records_pending_for_enrichment c n db = Some selected \<and>
        length selected = length enriched + length missing \<and>
        mset (map tuple_identity (enriched @ missing)) = mset (map record_identity selected))"
  proof
    assume "enrich_linkedin_profiles c n db = (Finished enriched missing ok, db')"
    from finished_run[OF this] obtain selected profiles lk' where
      s: "fetch_records_pending_for_enrichment c n db = Some selected"
      and e: "enriched = build_enriched_records c
             (fst (partition_records_by_profile_availability (lower_builtin c) selected lk'))"
      and m: "missing = build_missing_records c
             (snd (partition_records_by_profile_availability (lower_builtin c) selected lk'))"
      by blast
    let ?Q = "partition_records_by_profile_availability (lower_builtin c) selected lk'"
    have l: "length selected = length enriched + length missing"
      using partition_length[of "lower_builtin c" selected lk'] e m
      by (simp add: build_enriched_records_def build_missing_records_def)
    have "map (\<lambda>pr. record_identity (snd pr)) (fst ?Q) = map record_identity (map snd (fst ?Q))"
      by (simp add: comp_def)
    then have "map tuple_identity (enriched @ missing)
            = map record_identity (map snd (fst ?Q)) @ map record_identity (snd ?Q)"
      using enriched_records_tied(1)[of c "fst ?Q"] missing_records_tied(1)[of c "snd ?Q"] e m
      by (simp only: map_append)
    then have "mset (map tuple_identity (enriched @ missing))
            = mset (map record_identity (map snd (fst ?Q))) + mset (map record_identity (snd ?Q))"
      by (simp only: mset_append)
    also have "\<dots> = image_mset record_identity (mset (map snd (fst ?Q)) + mset (snd ?Q))"
      by (simp only: mset_map image_mset_union)
    also have "\<dots> = mset (map record_identity selected)"
      using partition_mset[of "lower_builtin c" selected lk'] by simp
    finally show "\<exists>selected. fetch_records_pending_for_enrichment c n db = Some selected \<and>
        length selected = length enriched + length missing \<and>
        mset (map tuple_identity (enriched @ missing)) = mset (map record_identity selected)"
      using s l by blast
  qed
  from f partition_mset[of lw rs lk] ie im fe fm pd len run show ?thesis by blast
qed

theorem one_outcome_per_pending_record_witness:
  "enrich_linkedin_profiles (answering [jdoe_profile]) 5 two_store
     = (Finished [build_enriched_profile_record (\<lambda>p. ''{}'') jdoe_profile jdoe]
          [build_missing_profile_record 1000000 asmith 0] True,
        two_store\<lparr> upserted := [[build_enriched_profile_record (\<lambda>p. ''{}'') jdoe_profile jdoe,
                                  build_missing_profile_record 1000000 asmith 0]] \<rparr>) \<and>
   fetch_records_pending_for_enrichment (answering [jdoe_profile]) 5 two_store
     = Some [asmith, jdoe] \<and>
   length [asmith, jdoe]
     = length [build_enriched_profile_record (\<lambda>p. ''{}'') jdoe_profile jdoe]
       + length [build_missing_profile_record 1000000 asmith 0] \<and>
   mset (map tuple_identity
          ([build_enriched_profile_record (\<lambda>p. ''{}'') jdoe_profile jdoe]
           @ [build_missing_profile_record 1000000 asmith 0]))
     = mset (map record_identity [asmith, jdoe])"
proof -
  have r: "enrich_linkedin_profiles (answering [jdoe_profile]) 5 two_store
     = (Finished [build_enriched_profile_record (\<lambda>p. ''{}'') jdoe_profile jdoe]
          [build_missing_profile_record 1000000 asmith 0] True,
        two_store\<lparr> upserted := [[build_enriched_profile_record (\<lambda>p. ''{}'') jdoe_profile jdoe,
                                  build_missing_profile_record 1000000 asmith 0]] \<rparr>)"
    by code_simp
  have s: "fetch_records_pending_for_enrichment (answering [jdoe_profile]) 5 two_store
     = Some [asmith, jdoe]"
    by code_simp
  from one_outcome_per_pending_record[of _ _ _ "answering [jdoe_profile]" 5 two_store
      "[build_enriched_profile_record (\<lambda>p. ''{}'') jdoe_profile jdoe]"
      "[build_missing_profile_record 1000000 asmith 0]" True
      "two_store\<lparr> upserted := [[build_enriched_profile_record (\<lambda>p. ''{}'') jdoe_profile jdoe,
                                  build_missing_profile_record 1000000 asmith 0]] \<rparr>"] r s
  have "length [asmith, jdoe]
     = length [build_enriched_profile_record (\<lambda>p. ''{}'') jdoe_profile jdoe]
       + length [build_missing_profile_record 1000000 asmith 0] \<and>
   mset (map tuple_identity
          ([build_enriched_profile_record (\<lambda>p. ''{}'') jdoe_profile jdoe]
           @ [build_missing_profile_record 1000000 asmith 0]))
     = mset (map record_identity [asmith, jdoe])"
    by simp
  with r s show ?thesis by blast
qed

text \<open>
  Claim C1, at the store that holds \<open>jdoe\<close> with retry count 2 and an elapsed cooldown, and
  a provider that returns no profile: the run persists retry count 1 and a cooldown of 5
  minutes, where the claim has 3 (and 45 minutes).
\<close>

theorem miss_after_two_misses_persists_one:
  "enrich_linkedin_profiles (answering []) 5 jdoe_store
     = (Finished [] [build_missing_profile_record 1000000 jdoe 0] True,
        jdoe_store\<lparr> upserted := [[build_missing_profile_record 1000000 jdoe 0]] \<rparr>) \<and>
   retry_count jdoe = 2 \<and>
   column ''retry_count'' (build_missing_profile_record 1000000 jdoe 0) = Some (PInt 1) \<and>
   column ''next_retry_after'' (build_missing_profile_record 1000000 jdoe 0) = Some (PInt 1300000)"
  by code_simp

section \<open>An answer of the provider that is an error or is empty\<close>

text \<open>
  The run has no check of its own on what \<^verbatim>\<open>get_linkedin_profiles\<close> hands back.
  Where the call raises, the exception ends the run before the upsert and the store is as
  it was. Where the call returns an empty list, every selected record is built as a miss
  and the batch is written.
\<close>

lemma raising_provider_ends_run:
  assumes "fetch_records_pending_for_enrichment c n db = Some pending"
      and "pending \<noteq> []"
      and "get_linkedin_profiles c
             (map (\<lambda>record. ''https://www.linkedin.com/'' @ linkedin_handle record) pending) = Inl e"
  shows "enrich_linkedin_profiles c n db = (Raised e, db)"
  using assms by (simp add: enrich_linkedin_profiles_def)

lemma empty_answer_writes_misses:
  assumes "fetch_records_pending_for_enrichment c n db = Some pending"
      and "pending \<noteq> []"
      and "get_linkedin_profiles c
             (map (\<lambda>record. ''https://www.linkedin.com/'' @ linkedin_handle record) pending) = Inr []"
      and "write_connection_opens c" and "\<not> upsert_multiple_records_raises c"
  shows "enrich_linkedin_profiles c n db
           = (Finished [] (build_missing_records c pending) True,
              db\<lparr>upserted := upserted db @ [build_missing_records c pending]\<rparr>)"
proof -
  have p: "partition_records_by_profile_availability (lower_builtin c) pending Map.empty
             = ([], pending)"
    by (simp add: partition_records_by_profile_availability_def partition_loop_filter
        matched_def match_record_to_apify_profile_def)
  have "length (build_missing_records c pending) = length pending"
    by (simp add: build_missing_records_def)
  with assms(2) have "build_missing_records c pending \<noteq> []" by auto
  with assms p show ?thesis
    by (simp add: enrich_linkedin_profiles_def create_lookup_from_apify_profiles_def
        match_build_upsert_def upsert_linkedin_profiles_def build_enriched_records_def Let_def)
qed

section \<open>Removing the host substrings\<close>

lemma remove_substring_hit:
  "old \<noteq> [] \<Longrightarrow> remove_substring old (old @ s) = remove_substring old s"
  by (cases old) auto

lemma remove_substring_miss:
  "\<not> prefix old (x # s) \<Longrightarrow> remove_substring old (x # s) = x # remove_substring old s"
  by simp

lemma remove_substring_absent: "\<not> sublist old s \<Longrightarrow> remove_substring old s = s"
  by (induction s) (auto simp: sublist_Cons_right)

lemma straddlesI:
  assumes "old = u @ v" "u \<noteq> []" "v \<noteq> []" "suffix u a" "prefix v b"
  shows "straddles old a b"
proof -
  from assms(2) have lu: "1 \<le> length u" by (cases u) simp_all
  from assms(3) have lv: "1 \<le> length v" by (cases v) simp_all
  from assms(1) have "length old = length u + length v" by simp
  with lu lv have "1 \<le> length u \<and> length u < length old" by arith
  then have k: "length u \<in> set [1..<length old]" by (simp only: set_upt atLeastLessThan_iff)
  from assms have "suffix (take (length u) old) a \<and> prefix (drop (length u) old) b" by simp
  with k show ?thesis unfolding straddles_def list_ex_iff by blast
qed

lemma straddlesE:
  assumes "straddles old a b"
  obtains u v where "old = u @ v" "u \<noteq> []" "v \<noteq> []" "suffix u a" "prefix v b"
proof -
  from assms obtain k where k: "1 \<le> k" "k < length old"
    "suffix (take k old) a" "prefix (drop k old) b"
    unfolding straddles_def list_ex_iff by auto
  have "old = take k old @ drop k old" by simp
  moreover from k have "take k old \<noteq> []" "drop k old \<noteq> []" by auto
  ultimately show thesis using k(3,4) that by blast
qed

text \<open>Where no occurrence straddles the join, the scan of the whole is the scan of the parts.\<close>

lemma remove_substring_split:
  assumes ns: "\<not> straddles old a b"
  shows "remove_substring old (a @ b) = remove_substring old a @ remove_substring old b"
  using ns
proof (induction a rule: length_induct)
  case (1 a)
  show ?case
  proof (cases a)
    case Nil
    then show ?thesis by simp
  next
    case (Cons x a')
    show ?thesis
    proof (cases "old \<noteq> [] \<and> prefix old a")
      case True
      then obtain r where r: "a = old @ r" by (auto simp: prefix_def)
      with True have "length r < length a" by simp
      moreover have "\<not> straddles old r b"
      proof
        assume "straddles old r b"
        then obtain u v where uv: "old = u @ v" "u \<noteq> []" "v \<noteq> []" "suffix u r" "prefix v b"
          by (rule straddlesE)
        from uv(4) r have "suffix u a" by (auto simp: suffix_def)
        with uv have "straddles old a b" by (intro straddlesI) auto
        with "1.prems" show False by simp
      qed
      ultimately have "remove_substring old (r @ b)
                         = remove_substring old r @ remove_substring old b"
        using "1.IH" by blast
      moreover have "remove_substring old (a @ b) = remove_substring old (r @ b)"
        using remove_substring_hit[of old "r @ b"] True r by simp
      moreover have "remove_substring old a = remove_substring old r"
        using remove_substring_hit[of old r] True r by simp
      ultimately show ?thesis by simp
    next
      case False
      have np: "\<not> (old \<noteq> [] \<and> prefix old (a @ b))"
      proof
        assume p: "old \<noteq> [] \<and> prefix old (a @ b)"
        with False obtain us where us: "old = a @ us" "prefix us b"
          unfolding prefix_append[of old a b] by blast
        from False us(1) p have "us \<noteq> []" by auto
        with us Cons have "straddles old a b" by (intro straddlesI[of old a us]) auto
        with "1.prems" show False by simp
      qed
      have "\<not> straddles old a' b"
      proof
        assume "straddles old a' b"
        then obtain u v where uv: "old = u @ v" "u \<noteq> []" "v \<noteq> []" "suffix u a'" "prefix v b"
          by (rule straddlesE)
        from uv(4) Cons have "suffix u a" by (auto simp: suffix_def)
        with uv have "straddles old a b" by (intro straddlesI) auto
        with "1.prems" show False by simp
      qed
      moreover have "length a' < length a" using Cons by simp
      ultimately have "remove_substring old (a' @ b)
                         = remove_substring old a' @ remove_substring old b"
        using "1.IH" by blast
      moreover have "remove_substring old (a @ b) = x # remove_substring old (a' @ b)"
        using np Cons by auto
      moreover have "remove_substring old a = x # remove_substring old a'"
        using False Cons by auto
      ultimately show ?thesis by simp
    qed
  qed
qed

text \<open>
  Nothing straddles into a string that begins with the first character of \<open>old\<close>, when
  \<open>old\<close> has that character only at its head.
\<close>

lemma no_straddle_into:
  assumes ne: "other \<noteq> []" and same: "hd other = hd old" and hd: "hd old \<notin> set (tl old)"
  shows "\<not> straddles old a (other @ s)"
proof
  assume "straddles old a (other @ s)"
  then obtain u v where uv: "old = u @ v" "u \<noteq> []" "v \<noteq> []" "suffix u a" "prefix v (other @ s)"
    by (rule straddlesE)
  from uv(3) obtain y v' where v: "v = y # v'" by (cases v) auto
  from ne obtain d t where dt: "other = d # t" by (cases other) auto
  from uv(5) v dt have "y = d" by simp
  from uv(2) obtain x u' where u: "u = x # u'" by (cases u) auto
  with uv(1) v have "tl old = u' @ y # v'" "hd old = x" by simp_all
  then have "y \<in> set (tl old)" by simp
  with same dt \<open>y = d\<close> hd show False by simp
qed

lemma remove_substring_embedded:
  assumes ne: "old \<noteq> []" and hd: "hd old \<notin> set (tl old)"
  shows "remove_substring old (a @ old @ s) = remove_substring old a @ remove_substring old s"
proof -
  have "\<not> straddles old a (old @ s)" using ne hd by (intro no_straddle_into) simp_all
  then have "remove_substring old (a @ old @ s)
               = remove_substring old a @ remove_substring old (old @ s)"
    by (rule remove_substring_split)
  with remove_substring_hit[OF ne, of s] show ?thesis by simp
qed

lemma remove_substring_skips:
  assumes "hd old \<notin> set u" "old \<noteq> []"
  shows "remove_substring old (u @ s) = u @ remove_substring old s"
  using assms(1)
proof (induction u)
  case Nil
  then show ?case by simp
next
  case (Cons x u)
  from assms(2) obtain c t where ct: "old = c # t" by (cases old) auto
  with Cons.prems have "x \<noteq> c" by auto
  with ct have "\<not> prefix old (x # u @ s)" by simp
  then have "remove_substring old (x # u @ s) = x # remove_substring old (u @ s)"
    by (rule remove_substring_miss)
  with Cons show ?case by simp
qed

text \<open>
  The scan for \<open>old\<close> passes over an embedded \<open>other\<close> that begins like \<open>old\<close>, has that
  character only at its head, and is not begun by \<open>old\<close>.
\<close>

lemma remove_substring_passes:
  assumes ne: "old \<noteq> []" "other \<noteq> []" and same: "hd other = hd old"
    and hd: "hd old \<notin> set (tl old)" and hd': "hd other \<notin> set (tl other)"
    and diff: "\<not> prefix old (other @ s)"
  shows "remove_substring old (a @ other @ s)
           = remove_substring old a @ other @ remove_substring old s"
proof -
  have "\<not> straddles old a (other @ s)" using ne(2) same hd by (rule no_straddle_into)
  then have "remove_substring old (a @ other @ s)
               = remove_substring old a @ remove_substring old (other @ s)"
    by (rule remove_substring_split)
  moreover have "remove_substring old (other @ s) = other @ remove_substring old s"
  proof -
    from ne(2) obtain d t where dt: "other = d # t" by (cases other) auto
    from diff dt have "remove_substring old (d # t @ s) = d # remove_substring old (t @ s)"
      using remove_substring_miss[of old d "t @ s"] by simp
    moreover have "remove_substring old (t @ s) = t @ remove_substring old s"
      using hd' same dt ne(1) by (intro remove_substring_skips) simp_all
    ultimately show ?thesis using dt by simp
  qed
  ultimately show ?thesis by simp
qed

subsection \<open>The three hosts\<close>

lemma host_facts:
  assumes "h \<in> set host_substrings"
  shows "h \<noteq> []" "hd h = CHR ''h''" "hd h \<notin> set (tl h)"
  using assms by (auto simp: host_substrings_def)

lemma remove_hosts_free:
  assumes "\<forall>h \<in> set host_substrings. \<not> sublist h s"
  shows "remove_hosts s = s"
  using assms by (simp add: remove_hosts_def host_substrings_def remove_substring_absent)

lemma normalize_by_remove_hosts:
  "normalize_linkedin_handle lw x =
     lw (CHR ''/'' # (if \<not> prefix ''in/'' (strip_slashes (remove_hosts x))
                      then ''in/'' @ strip_slashes (remove_hosts x)
                      else strip_slashes (remove_hosts x)))"
  by (simp only: normalize_linkedin_handle_def remove_hosts_def Let_def)

lemma remove_hosts_embedded_first:
  assumes "\<not> straddles ''https://www.linkedin.com'' a b"
  shows "remove_hosts (a @ ''https://www.linkedin.com'' @ b) = remove_hosts (a @ b)"
proof -
  let ?p1 = "''https://www.linkedin.com''"
  have "remove_substring ?p1 (a @ ?p1 @ b) = remove_substring ?p1 a @ remove_substring ?p1 b"
    by (rule remove_substring_embedded) simp_all
  also have "\<dots> = remove_substring ?p1 (a @ b)"
    using remove_substring_split[OF assms] by simp
  finally show ?thesis by (simp only: remove_hosts_def)
qed

lemma remove_hosts_embedded_second:
  assumes "\<not> straddles ''https://www.linkedin.com'' a b"
      and "\<not> straddles ''https://linkedin.com''
              (remove_substring ''https://www.linkedin.com'' a)
              (remove_substring ''https://www.linkedin.com'' b)"
  shows "remove_hosts (a @ ''https://linkedin.com'' @ b) = remove_hosts (a @ b)"
proof -
  let ?p1 = "''https://www.linkedin.com''" and ?p2 = "''https://linkedin.com''"
  let ?a1 = "remove_substring ?p1 a" and ?b1 = "remove_substring ?p1 b"
  have "remove_substring ?p1 (a @ ?p2 @ b) = ?a1 @ ?p2 @ ?b1"
    by (rule remove_substring_passes) simp_all
  then have "remove_substring ?p2 (remove_substring ?p1 (a @ ?p2 @ b))
               = remove_substring ?p2 ?a1 @ remove_substring ?p2 ?b1"
    using remove_substring_embedded[of ?p2 ?a1 ?b1] by simp
  also have "\<dots> = remove_substring ?p2 (?a1 @ ?b1)"
    using remove_substring_split[OF assms(2)] by simp
  also have "\<dots> = remove_substring ?p2 (remove_substring ?p1 (a @ b))"
    using remove_substring_split[OF assms(1)] by simp
  finally show ?thesis by (simp only: remove_hosts_def)
qed

lemma remove_hosts_embedded_third:
  assumes "\<not> straddles ''https://www.linkedin.com'' a b"
      and "\<not> straddles ''https://linkedin.com''
              (remove_substring ''https://www.linkedin.com'' a)
              (remove_substring ''https://www.linkedin.com'' b)"
      and "\<not> straddles ''http://www.linkedin.com''
              (remove_substring ''https://linkedin.com''
                 (remove_substring ''https://www.linkedin.com'' a))
              (remove_substring ''https://linkedin.com''
                 (remove_substring ''https://www.linkedin.com'' b))"
  shows "remove_hosts (a @ ''http://www.linkedin.com'' @ b) = remove_hosts (a @ b)"
proof -
  let ?p1 = "''https://www.linkedin.com''" and ?p2 = "''https://linkedin.com''"
    and ?p3 = "''http://www.linkedin.com''"
  let ?a1 = "remove_substring ?p1 a" and ?b1 = "remove_substring ?p1 b"
  let ?a2 = "remove_substring ?p2 ?a1" and ?b2 = "remove_substring ?p2 ?b1"
  have "remove_substring ?p1 (a @ ?p3 @ b) = ?a1 @ ?p3 @ ?b1"
    by (rule remove_substring_passes) simp_all
  moreover have "remove_substring ?p2 (?a1 @ ?p3 @ ?b1) = ?a2 @ ?p3 @ ?b2"
    by (rule remove_substring_passes) simp_all
  moreover have "remove_substring ?p3 (?a2 @ ?p3 @ ?b2)
                   = remove_substring ?p3 ?a2 @ remove_substring ?p3 ?b2"
    by (rule remove_substring_embedded) simp_all
  ultimately have l: "remove_hosts (a @ ?p3 @ b)
                        = remove_substring ?p3 ?a2 @ remove_substring ?p3 ?b2"
    by (simp only: remove_hosts_def)
  have "remove_substring ?p1 (a @ b) = ?a1 @ ?b1" using assms(1) by (rule remove_substring_split)
  moreover have "remove_substring ?p2 (?a1 @ ?b1) = ?a2 @ ?b2"
    using assms(2) by (rule remove_substring_split)
  moreover have "remove_substring ?p3 (?a2 @ ?b2)
                   = remove_substring ?p3 ?a2 @ remove_substring ?p3 ?b2"
    using assms(3) by (rule remove_substring_split)
  ultimately have "remove_hosts (a @ b) = remove_substring ?p3 ?a2 @ remove_substring ?p3 ?b2"
    by (simp only: remove_hosts_def)
  with l show ?thesis by simp
qed

text \<open>
  Each proviso of the amended claim is needed: where the text before and the text after
  join into the host of a removal step up to the embedded one's, the keys differ.
\<close>

lemma provisos_needed:
  "normalize_linkedin_handle ascii_lower
       (''https://www.linkedin.co'' @ ''https://linkedin.com'' @ ''m'')
     \<noteq> normalize_linkedin_handle ascii_lower (''https://www.linkedin.co'' @ ''m'')"
  "normalize_linkedin_handle ascii_lower
       (''https://linkedin.co'' @ ''https://linkedin.com'' @ ''m'')
     \<noteq> normalize_linkedin_handle ascii_lower (''https://linkedin.co'' @ ''m'')"
  "normalize_linkedin_handle ascii_lower
       (''https://www.linkedin.co'' @ ''http://www.linkedin.com'' @ ''m'')
     \<noteq> normalize_linkedin_handle ascii_lower (''https://www.linkedin.co'' @ ''m'')"
  "normalize_linkedin_handle ascii_lower
       (''https://linkedin.co'' @ ''http://www.linkedin.com'' @ ''m'')
     \<noteq> normalize_linkedin_handle ascii_lower (''https://linkedin.co'' @ ''m'')"
  "normalize_linkedin_handle ascii_lower
       (''http://www.linkedin.co'' @ ''http://www.linkedin.com'' @ ''m'')
     \<noteq> normalize_linkedin_handle ascii_lower (''http://www.linkedin.co'' @ ''m'')"
  by code_simp+

text \<open>
  Claim C10, as stated, at two references that differ only by an embedded host
  substring: taking the embedded substring out of the first joins its neighbours into a
  host substring that stays, and the two keys differ.
\<close>

theorem embedded_host_can_survive:
  "normalize_linkedin_handle ascii_lower
       (''https://www.linkedin.co'' @ ''https://www.linkedin.com'' @ ''m'')
     \<noteq> normalize_linkedin_handle ascii_lower (''https://www.linkedin.co'' @ ''m'')"
  by code_simp

text \<open>
  Claim C10, amended. Each \<^verbatim>\<open>replace\<close> call deletes an occurrence of its host
  substring wherever it stands in the string, not only a leading one; and two references
  that differ only by one such embedded substring normalize to the same key, provided
  that in no removal step, up to and including the one that deletes the embedded
  substring, the text before it and the text after it join into the substring that step
  deletes. This holds whatever \<^verbatim>\<open>str.lower\<close> does.
\<close>

theorem embedded_host_removed:
  "(h \<in> set host_substrings \<longrightarrow>
      remove_substring h (a @ h @ b) = remove_substring h a @ remove_substring h b) \<and>
   (\<not> straddles ''https://www.linkedin.com'' a b \<longrightarrow>
      normalize_linkedin_handle lw (a @ ''https://www.linkedin.com'' @ b)
        = normalize_linkedin_handle lw (a @ b)) \<and>
   (\<not> straddles ''https://www.linkedin.com'' a b \<and>
    \<not> straddles ''https://linkedin.com''
        (remove_substring ''https://www.linkedin.com'' a)
        (remove_substring ''https://www.linkedin.com'' b) \<longrightarrow>
      normalize_linkedin_handle lw (a @ ''https://linkedin.com'' @ b)
        = normalize_linkedin_handle lw (a @ b)) \<and>
   (\<not> straddles ''https://www.linkedin.com'' a b \<and>
    \<not> straddles ''https://linkedin.com''
        (remove_substring ''https://www.linkedin.com'' a)
        (remove_substring ''https://www.linkedin.com'' b) \<and>
    \<not> straddles ''http://www.linkedin.com''
        (remove_substring ''https://linkedin.com''
           (remove_substring ''https://www.linkedin.com'' a))
        (remove_substring ''https://linkedin.com''
           (remove_substring ''https://www.linkedin.com'' b)) \<longrightarrow>
      normalize_linkedin_handle lw (a @ ''http://www.linkedin.com'' @ b)
        = normalize_linkedin_handle lw (a @ b))"
proof (intro conjI impI)
  assume "h \<in> set host_substrings"
  from remove_substring_embedded[OF host_facts(1,3)[OF this]]
  show "remove_substring h (a @ h @ b) = remove_substring h a @ remove_substring h b" .
next
  assume "\<not> straddles ''https://www.linkedin.com'' a b"
  then have "remove_hosts (a @ ''https://www.linkedin.com'' @ b) = remove_hosts (a @ b)"
    by (rule remove_hosts_embedded_first)
  then show "normalize_linkedin_handle lw (a @ ''https://www.linkedin.com'' @ b)
        = normalize_linkedin_handle lw (a @ b)"
    by (simp only: normalize_by_remove_hosts)
next
  assume "\<not> straddles ''https://www.linkedin.com'' a b \<and>
    \<not> straddles ''https://linkedin.com''
        (remove_substring ''https://www.linkedin.com'' a)
        (remove_substring ''https://www.linkedin.com'' b)"
  then have "remove_hosts (a @ ''https://linkedin.com'' @ b) = remove_hosts (a @ b)"
    using remove_hosts_embedded_second[of a b] by blast
  then show "normalize_linkedin_handle lw (a @ ''https://linkedin.com'' @ b)
        = normalize_linkedin_handle lw (a @ b)"
    by (simp only: normalize_by_remove_hosts)
next
  assume "\<not> straddles ''https://www.linkedin.com'' a b \<and>
    \<not> straddles ''https://linkedin.com''
        (remove_substring ''https://www.linkedin.com'' a)
        (remove_substring ''https://www.linkedin.com'' b) \<and>
    \<not> straddles ''http://www.linkedin.com''
        (remove_substring ''https://linkedin.com''
           (remove_substring ''https://www.linkedin.com'' a))
        (remove_substring ''https://linkedin.com''
           (remove_substring ''https://www.linkedin.com'' b))"
  then have "remove_hosts (a @ ''http://www.linkedin.com'' @ b) = remove_hosts (a @ b)"
    using remove_hosts_embedded_third[of a b] by blast
  then show "normalize_linkedin_handle lw (a @ ''http://www.linkedin.com'' @ b)
        = normalize_linkedin_handle lw (a @ b)"
    by (simp only: normalize_by_remove_hosts)
qed

theorem embedded_host_removed_witness:
  "''https://linkedin.com'' \<in> set host_substrings \<and>
   \<not> straddles ''https://www.linkedin.com'' ''https://www.linkedin.com/in/jdoe'' ''/'' \<and>
   \<not> straddles ''https://linkedin.com''
       (remove_substring ''https://www.linkedin.com'' ''https://www.linkedin.com/in/jdoe'')
       (remove_substring ''https://www.linkedin.com'' ''/'') \<and>
   \<not> straddles ''http://www.linkedin.com''
       (remove_substring ''https://linkedin.com''
          (remove_substring ''https://www.linkedin.com'' ''https://www.linkedin.com/in/jdoe''))
       (remove_substring ''https://linkedin.com''
          (remove_substring ''https://www.linkedin.com'' ''/'')) \<and>
   remove_substring ''https://linkedin.com''
       (''https://www.linkedin.com/in/jdoe'' @ ''https://linkedin.com'' @ ''/'')
     = ''https://www.linkedin.com/in/jdoe/'' \<and>
   normalize_linkedin_handle ascii_lower
       (''https://www.linkedin.com/in/jdoe'' @ ''https://www.linkedin.com'' @ ''/'')
     = ''/in/jdoe'' \<and>
   normalize_linkedin_handle ascii_lower
       (''https://www.linkedin.com/in/jdoe'' @ ''https://linkedin.com'' @ ''/'')
     = ''/in/jdoe'' \<and>
   normalize_linkedin_handle ascii_lower
       (''https://www.linkedin.com/in/jdoe'' @ ''http://www.linkedin.com'' @ ''/'')
     = ''/in/jdoe''"
proof -
  let ?a = "''https://www.linkedin.com/in/jdoe''" and ?b = "''/''"
  have m: "''https://linkedin.com'' \<in> set host_substrings" by (simp add: host_substrings_def)
  have s1: "\<not> straddles ''https://www.linkedin.com'' ?a ?b" by code_simp
  have s2: "\<not> straddles ''https://linkedin.com''
       (remove_substring ''https://www.linkedin.com'' ?a)
       (remove_substring ''https://www.linkedin.com'' ?b)" by code_simp
  have s3: "\<not> straddles ''http://www.linkedin.com''
       (remove_substring ''https://linkedin.com'' (remove_substring ''https://www.linkedin.com'' ?a))
       (remove_substring ''https://linkedin.com'' (remove_substring ''https://www.linkedin.com'' ?b))"
    by code_simp
  have n: "normalize_linkedin_handle ascii_lower (?a @ ?b) = ''/in/jdoe''" by code_simp
  have r: "remove_substring ''https://linkedin.com'' ?a @ remove_substring ''https://linkedin.com'' ?b
             = ''https://www.linkedin.com/in/jdoe/''"
    by code_simp
  note t = embedded_host_removed[of "''https://linkedin.com''" ?a ?b ascii_lower]
  from t m r have e0: "remove_substring ''https://linkedin.com'' (?a @ ''https://linkedin.com'' @ ?b)
     = ''https://www.linkedin.com/in/jdoe/''" by simp
  from t s1 n have e1: "normalize_linkedin_handle ascii_lower (?a @ ''https://www.linkedin.com'' @ ?b)
     = ''/in/jdoe''" by simp
  from t s1 s2 n have e2: "normalize_linkedin_handle ascii_lower (?a @ ''https://linkedin.com'' @ ?b)
     = ''/in/jdoe''" by simp
  from t s1 s2 s3 n have e3: "normalize_linkedin_handle ascii_lower (?a @ ''http://www.linkedin.com'' @ ?b)
     = ''/in/jdoe''" by simp
  from m s1 s2 s3 e0 e1 e2 e3 show ?thesis by blast
qed

section \<open>Idempotence of the normalizer\<close>

subsection \<open>Lower-casing ASCII text\<close>

lemma ascii_lower_char_idem: "ascii_lower_char (ascii_lower_char c) = ascii_lower_char c"
  by (simp add: ascii_lower_char_def Let_def)

lemma of_char_slash: "(of_char c :: nat) = 47 \<longleftrightarrow> c = CHR ''/''"
proof -
  have "(of_char (CHR ''/'') :: nat) = 47" by simp
  then show ?thesis by (metis of_char_eq_iff)
qed

lemma ascii_lower_char_slash: "ascii_lower_char c = CHR ''/'' \<longleftrightarrow> c = CHR ''/''"
proof (cases "65 \<le> (of_char c :: nat) \<and> (of_char c :: nat) \<le> 90")
  case True
  then have "(of_char (ascii_lower_char c) :: nat) = of_char c + 32"
    by (simp add: ascii_lower_char_def Let_def)
  with True have "(of_char (ascii_lower_char c) :: nat) \<noteq> 47" "(of_char c :: nat) \<noteq> 47"
    by auto
  then show ?thesis using of_char_slash by blast
next
  case False
  then have "ascii_lower_char c = c" by (auto simp add: ascii_lower_char_def Let_def)
  then show ?thesis by simp
qed

lemma ascii_lower_in_prefix: "ascii_lower ''/in/'' = ''/in/''"
  by (simp add: ascii_lower_def ascii_lower_char_def)

text \<open>The ASCII lower-casing has the properties asked of \<^verbatim>\<open>str.lower\<close>.\<close>

lemma ascii_lower_facts: "str_lower_facts ascii_lower"
  unfolding str_lower_facts_def
proof (intro conjI allI impI)
  fix s
  show "ascii_lower (ascii_lower s) = ascii_lower s"
    by (simp add: ascii_lower_def ascii_lower_char_idem)
  have "ascii_lower (''/in/'' @ s) = ascii_lower ''/in/'' @ ascii_lower s"
    by (simp add: ascii_lower_def)
  then show "prefix ''/in/'' (ascii_lower (''/in/'' @ s))"
    by (simp only: ascii_lower_in_prefix prefixI)
  show "ascii_lower ''/in/'' = ''/in/''" by (rule ascii_lower_in_prefix)
next
  fix s :: string
  assume a: "s \<noteq> [] \<and> last s \<noteq> CHR ''/''"
  then show "ascii_lower s \<noteq> []" by (simp add: ascii_lower_def)
  from a have "last (ascii_lower s) = ascii_lower_char (last s)"
    by (simp add: ascii_lower_def last_map)
  with a show "last (ascii_lower s) \<noteq> CHR ''/''" by (simp add: ascii_lower_char_slash)
qed

subsection \<open>Stripping slashes\<close>

lemma strip_slashes_leading: "strip_slashes (CHR ''/'' # s) = strip_slashes s"
  by (simp add: strip_slashes_def)

lemma strip_slashes_fixed:
  assumes "s \<noteq> []" "hd s \<noteq> CHR ''/''" "last s \<noteq> CHR ''/''"
  shows "strip_slashes s = s"
proof -
  have "dropWhile (\<lambda>c. c = CHR ''/'') s = s"
    using assms(1,2) by (cases s) auto
  moreover have "dropWhile (\<lambda>c. c = CHR ''/'') (rev s) = rev s"
  proof -
    from assms(1) obtain y ys where r: "rev s = y # ys" by (cases "rev s") auto
    then have "y = hd (rev s)" by simp
    also have "\<dots> = last s" by (rule hd_rev)
    finally have "y \<noteq> CHR ''/''" using assms(3) by simp
    then show ?thesis by (simp only: r dropWhile.simps if_False)
  qed
  ultimately show ?thesis by (simp add: strip_slashes_def)
qed

lemma strip_slashes_last:
  assumes "strip_slashes s \<noteq> []"
  shows "last (strip_slashes s) \<noteq> CHR ''/''"
proof -
  let ?u = "dropWhile (\<lambda>c. c = CHR ''/'') (rev (dropWhile (\<lambda>c. c = CHR ''/'') s))"
  from assms have "?u \<noteq> []" by (simp add: strip_slashes_def)
  then have "hd ?u \<noteq> CHR ''/''" using hd_dropWhile[of "\<lambda>c. c = CHR ''/''"] by blast
  moreover have "last (strip_slashes s) = hd ?u"
    using \<open>?u \<noteq> []\<close> by (simp add: strip_slashes_def last_rev)
  ultimately show ?thesis by simp
qed

subsection \<open>The normal form\<close>

text \<open>
  What the normalizer hands to \<^verbatim>\<open>str.lower\<close> is \<open>/in/\<close> followed by a rest that is
  empty or does not end in a slash.
\<close>

lemma before_lower:
  obtains rest where
    "normalize_linkedin_handle lw x = lw (''/in/'' @ rest)"
    and "rest = [] \<or> last rest \<noteq> CHR ''/''"
proof -
  let ?h = "strip_slashes (remove_hosts x)"
  show thesis
  proof (cases "prefix ''in/'' ?h")
    case True
    then obtain rest where r: "?h = ''in/'' @ rest" by (auto simp: prefix_def)
    then have ne: "?h \<noteq> []" by simp
    from strip_slashes_last[OF ne] have l: "last ?h \<noteq> CHR ''/''" .
    have "rest \<noteq> []"
    proof
      assume "rest = []"
      with r have "?h = ''in/''" by simp
      with l show False by simp
    qed
    moreover from this r l have "last rest \<noteq> CHR ''/''" by simp
    moreover have "normalize_linkedin_handle lw x = lw (''/in/'' @ rest)"
      using True r by (simp add: normalize_by_remove_hosts)
    ultimately show thesis using that by blast
  next
    case False
    then have n: "normalize_linkedin_handle lw x = lw (''/in/'' @ ?h)"
      by (simp add: normalize_by_remove_hosts)
    have "?h = [] \<or> last ?h \<noteq> CHR ''/''" using strip_slashes_last[of "remove_hosts x"] by blast
    with n show thesis using that by blast
  qed
qed

lemma normal_form:
  assumes lw: "str_lower_facts lw"
  obtains rest where "normalize_linkedin_handle lw x = ''/in/'' @ rest"
    and "normalize_linkedin_handle lw x \<noteq> ''/in/'' \<longrightarrow> rest \<noteq> [] \<and> last rest \<noteq> CHR ''/''"
proof -
  obtain r0 where r0: "normalize_linkedin_handle lw x = lw (''/in/'' @ r0)"
    "r0 = [] \<or> last r0 \<noteq> CHR ''/''" by (rule before_lower)
  from lw have "prefix ''/in/'' (lw (''/in/'' @ r0))" by (simp add: str_lower_facts_def)
  then obtain rest where rest: "lw (''/in/'' @ r0) = ''/in/'' @ rest" by (auto simp: prefix_def)
  have "normalize_linkedin_handle lw x \<noteq> ''/in/'' \<longrightarrow> rest \<noteq> [] \<and> last rest \<noteq> CHR ''/''"
  proof
    assume d: "normalize_linkedin_handle lw x \<noteq> ''/in/''"
    have "r0 \<noteq> []"
    proof
      assume "r0 = []"
      with r0(1) lw have "normalize_linkedin_handle lw x = ''/in/''"
        by (simp add: str_lower_facts_def)
      with d show False by simp
    qed
    with r0(2) have "''/in/'' @ r0 \<noteq> [] \<and> last (''/in/'' @ r0) \<noteq> CHR ''/''" by simp
    with lw have "last (lw (''/in/'' @ r0)) \<noteq> CHR ''/''"
      unfolding str_lower_facts_def by blast
    moreover from d r0(1) rest have "rest \<noteq> []" by auto
    ultimately show "rest \<noteq> [] \<and> last rest \<noteq> CHR ''/''" using rest by simp
  qed
  with r0(1) rest show thesis using that by simp
qed

text \<open>
  Claim C6, as stated, at the non-empty string \<open>/\<close>: its normal form is \<open>/in/\<close>, whose
  normal form is \<open>/in/in\<close>.
\<close>

theorem normalize_not_idempotent_on_slash:
  "normalize_linkedin_handle ascii_lower (normalize_linkedin_handle ascii_lower ''/'')
     \<noteq> normalize_linkedin_handle ascii_lower ''/''"
  by code_simp

text \<open>
  Claim C6, amended. Let \<^verbatim>\<open>str.lower\<close> be idempotent, keep a leading \<open>/in/\<close>, keep
  \<open>/in/\<close> itself, and turn no string that is non-empty and does not end in a slash into
  one that is empty or ends in a slash. Then on every string the normalizer returns a
  string that begins with \<open>/in/\<close>, raising nothing; and for every string whose normal
  form is not the bare \<open>/in/\<close> and contains none of the three host substrings,
  normalizing the normal form gives it back.
\<close>

theorem normalize_idempotent_on_clean_keys:
  assumes lw: "str_lower_facts lw"
  shows "(\<exists>rest. normalize_value lw (PStr x) = Inr (''/in/'' @ rest)) \<and>
         (normalize_linkedin_handle lw x \<noteq> ''/in/'' \<and>
          (\<forall>h \<in> set host_substrings. \<not> sublist h (normalize_linkedin_handle lw x)) \<longrightarrow>
            normalize_linkedin_handle lw (normalize_linkedin_handle lw x)
              = normalize_linkedin_handle lw x)"
proof (intro conjI impI)
  obtain rest where "normalize_linkedin_handle lw x = ''/in/'' @ rest"
    by (rule normal_form[OF lw])
  then show "\<exists>rest. normalize_value lw (PStr x) = Inr (''/in/'' @ rest)"
    by (simp add: normalize_value_def)
next
  let ?y = "normalize_linkedin_handle lw x"
  assume a: "?y \<noteq> ''/in/'' \<and> (\<forall>h \<in> set host_substrings. \<not> sublist h ?y)"
  obtain rest where y: "?y = ''/in/'' @ rest"
    and r: "?y \<noteq> ''/in/'' \<longrightarrow> rest \<noteq> [] \<and> last rest \<noteq> CHR ''/''"
    by (rule normal_form[OF lw])
  from a r have ne: "rest \<noteq> []" and l: "last rest \<noteq> CHR ''/''" by simp_all
  have rh: "remove_hosts ?y = ?y" using a by (intro remove_hosts_free) simp
  have "strip_slashes ?y = strip_slashes (''in/'' @ rest)"
    using strip_slashes_leading[of "''in/'' @ rest"] by (simp add: y)
  also have "\<dots> = ''in/'' @ rest"
    using ne l by (intro strip_slashes_fixed) simp_all
  finally have st: "strip_slashes (remove_hosts ?y) = ''in/'' @ rest" by (simp only: rh)
  have "normalize_linkedin_handle lw ?y = lw (CHR ''/'' # ''in/'' @ rest)"
    unfolding normalize_by_remove_hosts[of lw ?y] st by simp
  also have "\<dots> = lw ?y" by (simp add: y)
  also have "\<dots> = ?y"
  proof -
    obtain r0 where "?y = lw (''/in/'' @ r0)" by (rule before_lower)
    moreover from lw have "lw (lw (''/in/'' @ r0)) = lw (''/in/'' @ r0)"
      by (simp add: str_lower_facts_def)
    ultimately show ?thesis by simp
  qed
  finally show "normalize_linkedin_handle lw ?y = ?y" .
qed

theorem normalize_idempotent_on_clean_keys_witness:
  "normalize_linkedin_handle ascii_lower ''https://www.linkedin.com/in/Foo/'' = ''/in/foo'' \<and>
   normalize_value ascii_lower (PStr ''https://www.linkedin.com/in/Foo/'') = Inr (''/in/'' @ ''foo'') \<and>
   normalize_linkedin_handle ascii_lower ''https://www.linkedin.com/in/Foo/'' \<noteq> ''/in/'' \<and>
   \<not> sublist ''https://www.linkedin.com'' ''/in/foo'' \<and>
   \<not> sublist ''https://linkedin.com'' ''/in/foo'' \<and>
   \<not> sublist ''http://www.linkedin.com'' ''/in/foo'' \<and>
   normalize_linkedin_handle ascii_lower ''/in/foo'' = ''/in/foo''"
proof -
  have n: "normalize_linkedin_handle ascii_lower ''https://www.linkedin.com/in/Foo/'' = ''/in/foo''"
    by code_simp
  have a: "normalize_linkedin_handle ascii_lower ''https://www.linkedin.com/in/Foo/'' \<noteq> ''/in/''"
    by (simp add: n)
  have f: "\<not> sublist ''https://www.linkedin.com'' ''/in/foo''"
    "\<not> sublist ''https://linkedin.com'' ''/in/foo''"
    "\<not> sublist ''http://www.linkedin.com'' ''/in/foo''"
    by code_simp+
  then have b: "\<forall>h \<in> set host_substrings.
       \<not> sublist h (normalize_linkedin_handle ascii_lower ''https://www.linkedin.com/in/Foo/'')"
    by (simp add: n host_substrings_def)
  from normalize_idempotent_on_clean_keys[OF ascii_lower_facts, of "''https://www.linkedin.com/in/Foo/''"]
    a b
  have "normalize_linkedin_handle ascii_lower ''/in/foo'' = ''/in/foo''"
    by (simp add: n)
  moreover have "normalize_value ascii_lower (PStr ''https://www.linkedin.com/in/Foo/'')
                   = Inr (''/in/'' @ ''foo'')"
    by (simp add: normalize_value_def n)
  ultimately show ?thesis using n a f by blast
qed

section \<open>Matching by normalized handle\<close>

lemma lookup_loop_step:
  "lookup_loop lw (p # ps) m =
     (if raises_on p then Inl AttributeError
      else case public_key lw p of None \<Rightarrow> lookup_loop lw ps m
           | Some k \<Rightarrow> lookup_loop lw ps (m(k \<mapsto> p)))"
  by (cases "dict_get p ''publicIdentifier'' (PStr [])")
     (simp_all add: public_key_def raises_on_def normalize_value_def Let_def)

lemma lookup_loop_raises:
  "\<exists>p \<in> set ps. raises_on p \<Longrightarrow> lookup_loop lw ps m = Inl AttributeError"
proof (induction ps arbitrary: m)
  case Nil
  then show ?case by simp
next
  case (Cons p ps)
  show ?case
  proof (cases "raises_on p")
    case True
    then show ?thesis by (simp only: lookup_loop_step if_True)
  next
    case False
    with Cons.prems have "\<exists>p \<in> set ps. raises_on p" by simp
    from Cons.IH[OF this] False show ?thesis
      by (simp only: lookup_loop_step if_False split: option.split) simp
  qed
qed

lemma lookup_loop_returns:
  "\<forall>p \<in> set ps. \<not> raises_on p \<Longrightarrow>
   \<exists>m'. lookup_loop lw ps m = Inr m' \<and>
     (\<forall>k. m' k = (case filter (\<lambda>p. public_key lw p = Some k) ps of
                      [] \<Rightarrow> m k | x # xs \<Rightarrow> Some (last (x # xs))))"
proof (induction ps arbitrary: m)
  case Nil
  then show ?case by simp
next
  case (Cons p ps)
  then have nr: "\<not> raises_on p" and rest: "\<forall>p \<in> set ps. \<not> raises_on p" by simp_all
  show ?case
  proof (cases "public_key lw p")
    case None
    from Cons.IH[OF rest, of m] obtain m' where m': "lookup_loop lw ps m = Inr m'"
      "\<forall>k. m' k = (case filter (\<lambda>p. public_key lw p = Some k) ps of
                      [] \<Rightarrow> m k | x # xs \<Rightarrow> Some (last (x # xs)))" by blast
    have "lookup_loop lw (p # ps) m = Inr m'"
      using nr None m'(1) by (simp only: lookup_loop_step if_False option.case)
    moreover have "filter (\<lambda>q. public_key lw q = Some k) (p # ps)
                     = filter (\<lambda>q. public_key lw q = Some k) ps" for k
      using None by simp
    ultimately show ?thesis using m'(2) by simp
  next
    case (Some k0)
    from Cons.IH[OF rest, of "m(k0 \<mapsto> p)"] obtain m' where m':
      "lookup_loop lw ps (m(k0 \<mapsto> p)) = Inr m'"
      "\<forall>k. m' k = (case filter (\<lambda>p. public_key lw p = Some k) ps of
                      [] \<Rightarrow> (m(k0 \<mapsto> p)) k | x # xs \<Rightarrow> Some (last (x # xs)))" by blast
    have "lookup_loop lw (p # ps) m = Inr m'"
      using nr Some m'(1) by (simp only: lookup_loop_step if_False option.case)
    moreover have "m' k = (case filter (\<lambda>q. public_key lw q = Some k) (p # ps) of
                      [] \<Rightarrow> m k | x # xs \<Rightarrow> Some (last (x # xs)))" for k
      using m'(2)[rule_format, of k] Some
      by (cases "filter (\<lambda>p. public_key lw p = Some k) ps") auto
    ultimately show ?thesis by blast
  qed
qed

lemma keys_member:
  "k \<in> set (List.map_filter (public_key lw) ps) \<longleftrightarrow> (\<exists>p \<in> set ps. public_key lw p = Some k)"
  by (induction ps) (auto simp: map_filter_simps split: option.splits)

lemma distinct_keys_filter:
  "distinct (List.map_filter (public_key lw) ps) \<Longrightarrow>
   length (filter (\<lambda>p. public_key lw p = Some k) ps) \<le> 1"
proof (induction ps)
  case Nil
  then show ?case by simp
next
  case (Cons p ps)
  show ?case
  proof (cases "public_key lw p")
    case None
    with Cons show ?thesis by (simp add: map_filter_simps)
  next
    case (Some k0)
    with Cons.prems have d: "k0 \<notin> set (List.map_filter (public_key lw) ps)"
      "distinct (List.map_filter (public_key lw) ps)" by (simp_all add: map_filter_simps)
    show ?thesis
    proof (cases "k0 = k")
      case True
      with d(1) have "filter (\<lambda>p. public_key lw p = Some k) ps = []"
        by (auto simp: keys_member filter_empty_conv)
      then show ?thesis by simp
    next
      case False
      with Some Cons.IH[OF d(2)] show ?thesis by simp
    qed
  qed
qed

lemma short_list_by_mset:
  assumes "mset ys = mset xs" "length xs \<le> 1"
  shows "ys = xs"
proof (cases xs)
  case Nil
  with assms show ?thesis by simp
next
  case (Cons a as)
  with assms(2) have "xs = [a]" by simp
  with assms(1) show ?thesis by simp
qed

lemma create_lookup_permuted:
  assumes perm: "mset qs = mset ps" and dist: "distinct (List.map_filter (public_key lw) ps)"
  shows "create_lookup_from_apify_profiles lw qs = create_lookup_from_apify_profiles lw ps"
proof (cases "\<exists>p \<in> set ps. raises_on p")
  case True
  moreover from perm have "set qs = set ps" by (rule mset_eq_setD)
  ultimately have "\<exists>p \<in> set qs. raises_on p" by simp
  with True show ?thesis
    by (simp add: create_lookup_from_apify_profiles_def lookup_loop_raises)
next
  case False
  moreover from perm have s: "set qs = set ps" by (rule mset_eq_setD)
  ultimately have np: "\<forall>p \<in> set ps. \<not> raises_on p" and nq: "\<forall>p \<in> set qs. \<not> raises_on p"
    by simp_all
  from lookup_loop_returns[OF np, of lw Map.empty] obtain mp where mp:
    "lookup_loop lw ps Map.empty = Inr mp"
    "\<forall>k. mp k = (case filter (\<lambda>p. public_key lw p = Some k) ps of
                      [] \<Rightarrow> None | x # xs \<Rightarrow> Some (last (x # xs)))" by auto
  from lookup_loop_returns[OF nq, of lw Map.empty] obtain mq where mq:
    "lookup_loop lw qs Map.empty = Inr mq"
    "\<forall>k. mq k = (case filter (\<lambda>p. public_key lw p = Some k) qs of
                      [] \<Rightarrow> None | x # xs \<Rightarrow> Some (last (x # xs)))" by auto
  have "filter (\<lambda>p. public_key lw p = Some k) qs = filter (\<lambda>p. public_key lw p = Some k) ps" for k
  proof (rule short_list_by_mset)
    show "mset (filter (\<lambda>p. public_key lw p = Some k) qs) = mset (filter (\<lambda>p. public_key lw p = Some k) ps)"
      using perm by simp
    show "length (filter (\<lambda>p. public_key lw p = Some k) ps) \<le> 1"
      using dist by (rule distinct_keys_filter)
  qed
  with mp(2) mq(2) have "mq k = mp k" for k by simp
  then have "mq = mp" by (rule ext)
  with mp(1) mq(1) show ?thesis by (simp add: create_lookup_from_apify_profiles_def)
qed

lemma create_lookup_last_wins:
  assumes "create_lookup_from_apify_profiles lw (xs @ p # ys) = Inr m"
      and "public_key lw p = Some k" and "k \<notin> set (List.map_filter (public_key lw) ys)"
  shows "m k = Some p"
proof -
  have nr: "\<forall>q \<in> set (xs @ p # ys). \<not> raises_on q"
  proof (rule ccontr)
    assume "\<not> ?thesis"
    then have "\<exists>q \<in> set (xs @ p # ys). raises_on q" by blast
    from lookup_loop_raises[OF this, of lw Map.empty] assms(1) show False
      by (simp add: create_lookup_from_apify_profiles_def)
  qed
  from lookup_loop_returns[OF nr, of lw Map.empty] assms(1) have
    "m k = (case filter (\<lambda>p. public_key lw p = Some k) (xs @ p # ys) of
                      [] \<Rightarrow> None | x # xs \<Rightarrow> Some (last (x # xs)))"
    by (auto simp: create_lookup_from_apify_profiles_def)
  moreover have "filter (\<lambda>p. public_key lw p = Some k) ys = []"
    using assms(3) by (auto simp: keys_member filter_empty_conv)
  ultimately show ?thesis using assms(2)
    by (cases "filter (\<lambda>p. public_key lw p = Some k) xs") auto
qed

text \<open>
  Claim C7. Whatever \<^verbatim>\<open>str.lower\<close> does: for every list of fetched profiles whose
  stored keys are pairwise distinct, every permutation of the list gives the same lookup,
  hence the same partition of any records and the same profile for each record; and the
  profile that is the last of a list to have a key is the one the lookup holds under that
  key, and the one every record with that normalized handle matches.
\<close>

theorem matching_keyed_by_normalized_handle:
  "(mset qs = mset ps \<and> distinct (List.map_filter (public_key lw) ps) \<longrightarrow>
      create_lookup_from_apify_profiles lw qs = create_lookup_from_apify_profiles lw ps \<and>
      (\<forall>lk lk' rs. create_lookup_from_apify_profiles lw ps = Inr lk \<and>
                   create_lookup_from_apify_profiles lw qs = Inr lk' \<longrightarrow>
          partition_records_by_profile_availability lw rs lk'
            = partition_records_by_profile_availability lw rs lk \<and>
          (\<forall>r. match_record_to_apify_profile lw r lk' = match_record_to_apify_profile lw r lk))) \<and>
   (create_lookup_from_apify_profiles lw (xs @ p # ys) = Inr m \<and>
    public_key lw p = Some k \<and> k \<notin> set (List.map_filter (public_key lw) ys) \<longrightarrow>
      m k = Some p \<and>
      (\<forall>r. normalize_linkedin_handle lw (linkedin_handle r) = k \<longrightarrow>
            match_record_to_apify_profile lw r m = Some p))"
proof (intro conjI impI)
  assume a: "mset qs = mset ps \<and> distinct (List.map_filter (public_key lw) ps)"
  then show e: "create_lookup_from_apify_profiles lw qs = create_lookup_from_apify_profiles lw ps"
    using create_lookup_permuted[of qs ps lw] by simp
  show "\<forall>lk lk' rs. create_lookup_from_apify_profiles lw ps = Inr lk \<and>
                   create_lookup_from_apify_profiles lw qs = Inr lk' \<longrightarrow>
          partition_records_by_profile_availability lw rs lk'
            = partition_records_by_profile_availability lw rs lk \<and>
          (\<forall>r. match_record_to_apify_profile lw r lk' = match_record_to_apify_profile lw r lk)"
    using e by auto
next
  assume b: "create_lookup_from_apify_profiles lw (xs @ p # ys) = Inr m \<and>
    public_key lw p = Some k \<and> k \<notin> set (List.map_filter (public_key lw) ys)"
  then show w: "m k = Some p" using create_lookup_last_wins[of lw xs p ys m k] by simp
  show "\<forall>r. normalize_linkedin_handle lw (linkedin_handle r) = k \<longrightarrow>
            match_record_to_apify_profile lw r m = Some p"
    using w by (simp add: match_record_to_apify_profile_def)
qed

theorem matching_keyed_by_normalized_handle_witness:
  "mset [asmith_profile, jdoe_profile] = mset [jdoe_profile, asmith_profile] \<and>
   distinct (List.map_filter (public_key ascii_lower) [jdoe_profile, asmith_profile]) \<and>
   create_lookup_from_apify_profiles ascii_lower [asmith_profile, jdoe_profile]
     = create_lookup_from_apify_profiles ascii_lower [jdoe_profile, asmith_profile] \<and>
   create_lookup_from_apify_profiles ascii_lower ([jdoe_profile] @ jdoe_upper # [])
     = Inr [''/in/jdoe'' \<mapsto> jdoe_upper] \<and>
   public_key ascii_lower jdoe_profile = Some ''/in/jdoe'' \<and>
   public_key ascii_lower jdoe_upper = Some ''/in/jdoe'' \<and>
   ''/in/jdoe'' \<notin> set (List.map_filter (public_key ascii_lower) []) \<and>
   [''/in/jdoe'' \<mapsto> jdoe_upper] ''/in/jdoe'' = Some jdoe_upper \<and>
   normalize_linkedin_handle ascii_lower (linkedin_handle jdoe) = ''/in/jdoe'' \<and>
   match_record_to_apify_profile ascii_lower jdoe [''/in/jdoe'' \<mapsto> jdoe_upper] = Some jdoe_upper"
proof -
  have n: "normalize_linkedin_handle ascii_lower ''jdoe'' = ''/in/jdoe''"
    "normalize_linkedin_handle ascii_lower ''JDoe'' = ''/in/jdoe''"
    "normalize_linkedin_handle ascii_lower ''in/jdoe'' = ''/in/jdoe''"
    "normalize_linkedin_handle ascii_lower ''asmith'' = ''/in/asmith''"
    by code_simp+
  have k: "public_key ascii_lower jdoe_profile = Some ''/in/jdoe''" "public_key ascii_lower jdoe_upper = Some ''/in/jdoe''"
    "public_key ascii_lower asmith_profile = Some ''/in/asmith''"
    by (simp_all add: public_key_def dict_get_def jdoe_profile_def jdoe_upper_def
        asmith_profile_def n)
  have m: "mset [asmith_profile, jdoe_profile] = mset [jdoe_profile, asmith_profile]"
    by simp
  have d: "distinct (List.map_filter (public_key ascii_lower) [jdoe_profile, asmith_profile])"
    by (simp add: map_filter_simps k)
  have c: "create_lookup_from_apify_profiles ascii_lower ([jdoe_profile] @ jdoe_upper # [])
     = Inr [''/in/jdoe'' \<mapsto> jdoe_upper]"
    by (simp add: create_lookup_from_apify_profiles_def normalize_value_def dict_get_def
        jdoe_profile_def jdoe_upper_def n)
  have e: "''/in/jdoe'' \<notin> set (List.map_filter (public_key ascii_lower) [])"
    by (simp add: map_filter_simps)
  have h: "normalize_linkedin_handle ascii_lower (linkedin_handle jdoe) = ''/in/jdoe''"
    by (simp add: jdoe_def n)
  note t = matching_keyed_by_normalized_handle[of "[asmith_profile, jdoe_profile]"
      "[jdoe_profile, asmith_profile]" ascii_lower "[jdoe_profile]" jdoe_upper "[]"
      "[''/in/jdoe'' \<mapsto> jdoe_upper]" "''/in/jdoe''"]
  from t m d have p: "create_lookup_from_apify_profiles ascii_lower [asmith_profile, jdoe_profile]
     = create_lookup_from_apify_profiles ascii_lower [jdoe_profile, asmith_profile]" by blast
  from t c k(2) e have w: "[''/in/jdoe'' \<mapsto> jdoe_upper] ''/in/jdoe'' = Some jdoe_upper \<and>
      (\<forall>r. normalize_linkedin_handle ascii_lower (linkedin_handle r) = ''/in/jdoe'' \<longrightarrow>
            match_record_to_apify_profile ascii_lower r [''/in/jdoe'' \<mapsto> jdoe_upper] = Some jdoe_upper)"
    by blast
  with h have "match_record_to_apify_profile ascii_lower jdoe [''/in/jdoe'' \<mapsto> jdoe_upper] = Some jdoe_upper"
    by blast
  with p w m d c k e h show ?thesis by blast
qed

end
